theory Spec2Isabelle
  imports Complex_Main "HOL-Library.AList"
begin

section \<open>Data model (types/index.ts)\<close>

text \<open>
  Timestamps (\<open>Date\<close>) are milliseconds since the epoch, an \<open>int\<close>; comparing two
  dates in the source compares these numbers. A prize's \<open>quantity\<close> and \<open>remaining\<close>
  and a win probability are \<open>number\<close>s in the source and \<open>real\<close> here: negative and
  fractional values are values the code accepts (the model covers the finite numbers,
  not \<open>NaN\<close> or the infinities, and computes exactly). An optional field is an
  \<open>option\<close>. Field names shared by several interfaces carry a short prefix.
\<close>

datatype CampaignType = later_lottery | instant_web | instant_auto

datatype CampaignStatus = draft | active | ended

record XUser =
  xu_id :: string
  xu_username :: string
  displayName :: string
  followers :: int
  following :: int

record Prize =
  pz_id :: string
  pz_name :: string
  quantity :: real
  remaining :: real
  imageUrl :: "string option"

record Participant =
  userId :: string
  username :: string
  enteredAt :: int
  won :: bool
  prizeId :: "string option"

record CampaignRules =
  requireFollow :: bool
  requireRetweet :: bool
  requireLike :: bool
  requireHashtag :: "string option"
  winProbability :: "real option"

record Campaign =
  c_id :: string
  c_name :: string
  c_type :: CampaignType
  description :: string
  startDate :: int
  endDate :: int
  prizes :: "Prize list"
  participants :: "Participant list"
  c_status :: CampaignStatus
  rules :: CampaignRules
  c_createdAt :: int
  updatedAt :: int

section \<open>Campaign service (services/CampaignService.ts)\<close>

text \<open>
  The class has one field, the \<open>Map\<close> from campaign id to campaign. A JavaScript
  \<open>Map\<close> keeps its keys in insertion order and \<open>set\<close> on a present key replaces the
  value in place: this is an association list under \<open>AList.update\<close>, read with
  \<open>map_of\<close>.
\<close>

record CampaignService =
  campaigns :: "(string \<times> Campaign) list"

definition newCampaignService :: CampaignService where
  "newCampaignService = \<lparr>campaigns = []\<rparr>"

text \<open>
  \<open>createCampaign\<close>: the generated id (built from the clock and \<open>Math.random\<close>) and
  the clock reading are inputs of the model. Every prize is copied with \<open>remaining\<close>
  set to its \<open>quantity\<close>.
\<close>

definition createCampaign ::
  "string \<Rightarrow> string \<Rightarrow> CampaignType \<Rightarrow> string \<Rightarrow> int \<Rightarrow> int \<Rightarrow> Prize list \<Rightarrow> CampaignRules
     \<Rightarrow> int \<Rightarrow> CampaignService \<Rightarrow> Campaign \<times> CampaignService" where
  "createCampaign generatedId name type descr startD endD ps rs now s =
     (let campaign = \<lparr>c_id = generatedId, c_name = name, c_type = type, description = descr,
                       startDate = startD, endDate = endD,
                       prizes = map (\<lambda>p. p\<lparr>remaining := quantity p\<rparr>) ps,
                       participants = [], c_status = draft, rules = rs,
                       c_createdAt = now, updatedAt = now\<rparr>
      in (campaign, s\<lparr>campaigns := AList.update (c_id campaign) campaign (campaigns s)\<rparr>))"

definition getCampaign :: "string \<Rightarrow> CampaignService \<Rightarrow> Campaign option" where
  "getCampaign cid s = map_of (campaigns s) cid"

definition getActiveCampaigns :: "int \<Rightarrow> CampaignService \<Rightarrow> Campaign list" where
  "getActiveCampaigns now s =
     filter (\<lambda>campaign. c_status campaign = active \<and> startDate campaign \<le> now
                         \<and> endDate campaign \<ge> now)
            (map snd (campaigns s))"

definition startCampaign :: "string \<Rightarrow> int \<Rightarrow> CampaignService \<Rightarrow> Campaign option \<times> CampaignService" where
  "startCampaign cid now s =
     (case map_of (campaigns s) cid of
        None \<Rightarrow> (None, s)
      | Some campaign \<Rightarrow>
          (let campaign' = campaign\<lparr>c_status := active, updatedAt := now\<rparr>
           in (Some campaign', s\<lparr>campaigns := AList.update cid campaign' (campaigns s)\<rparr>)))"

definition endCampaign :: "string \<Rightarrow> int \<Rightarrow> CampaignService \<Rightarrow> Campaign option \<times> CampaignService" where
  "endCampaign cid now s =
     (case map_of (campaigns s) cid of
        None \<Rightarrow> (None, s)
      | Some campaign \<Rightarrow>
          (let campaign' = campaign\<lparr>c_status := ended, updatedAt := now\<rparr>
           in (Some campaign', s\<lparr>campaigns := AList.update cid campaign' (campaigns s)\<rparr>)))"

subsection \<open>Random draws\<close>

text \<open>
  \<open>Math.random()\<close> returns a number \<open>r\<close> with \<open>0 \<le> r < 1\<close>. Each call is an input of
  the model, of a type that holds exactly these numbers. \<open>random_of\<close> builds one from
  a real number in that range (and is \<open>0\<close> elsewhere).
\<close>

typedef random_value = "{r::real. 0 \<le> r \<and> r < 1}"
  morphisms the_value Abs_random_value
  by (rule exI [of _ 0]) simp

setup_lifting type_definition_random_value

lift_definition random_of :: "real \<Rightarrow> random_value" is
  "\<lambda>r. if 0 \<le> r \<and> r < 1 then r else 0"
  by simp

text \<open>\<open>Math.floor(Math.random() * n)\<close> for an array length \<open>n\<close>.\<close>

definition randomIndex :: "random_value \<Rightarrow> nat \<Rightarrow> nat" where
  "randomIndex r n = nat \<lfloor>the_value r * real n\<rfloor>"

text \<open>
  \<open>x || d\<close> on an optional number: \<open>d\<close> when \<open>x\<close> is \<open>undefined\<close> and also when it
  is \<open>0\<close>, which JavaScript counts as false. A string is true when it is not empty.
\<close>

definition number_or :: "real option \<Rightarrow> real \<Rightarrow> real" where
  "number_or x d = (case x of None \<Rightarrow> d | Some v \<Rightarrow> if v = 0 then d else v)"

definition truthy :: "string option \<Rightarrow> bool" where
  "truthy x = (case x of None \<Rightarrow> False | Some v \<Rightarrow> v \<noteq> [])"

subsection \<open>Instant lottery and entry\<close>

record InstantResult =
  res_won :: bool
  res_prizeId :: "string option"

text \<open>
  \<open>runInstantLottery\<close>: \<open>availablePrizes\<close> holds references into \<open>campaign.prizes\<close>, so
  the model keeps the positions of the available prizes and \<open>prize.remaining--\<close>
  updates the campaign's prize at the chosen position. \<open>r1\<close> is the draw compared
  with the win probability, \<open>r2\<close> the draw that selects the prize.
\<close>

definition runInstantLottery ::
  "Campaign \<Rightarrow> Participant \<Rightarrow> random_value \<Rightarrow> random_value \<Rightarrow> InstantResult \<times> Campaign" where
  "runInstantLottery campaign participant r1 r2 =
     (let availablePrizes =
            filter (\<lambda>i. remaining (prizes campaign ! i) > 0) [0..<length (prizes campaign)]
      in if length availablePrizes = 0
         then (\<lparr>res_won = False, res_prizeId = None\<rparr>, campaign)
         else
           (let probability = number_or (winProbability (rules campaign)) 10;
                random = the_value r1 * 100
            in if random < probability
               then
                 (let k = availablePrizes ! randomIndex r2 (length availablePrizes);
                      prize = prizes campaign ! k
                  in (\<lparr>res_won = True, res_prizeId = Some (pz_id prize)\<rparr>,
                      campaign\<lparr>prizes :=
                        (prizes campaign)[k := prize\<lparr>remaining := remaining prize - 1\<rparr>]\<rparr>))
               else (\<lparr>res_won = False, res_prizeId = None\<rparr>, campaign)))"

text \<open>
  \<open>enterCampaign\<close>: the result is the returned boolean and the service afterwards.
  \<open>notifyWinner\<close> and \<open>notifyLoser\<close> only write to the log and are left out.
\<close>

definition enterCampaign ::
  "string \<Rightarrow> XUser \<Rightarrow> int \<Rightarrow> random_value \<Rightarrow> random_value \<Rightarrow> CampaignService
     \<Rightarrow> bool \<times> CampaignService" where
  "enterCampaign campaignId user now r1 r2 s =
     (case map_of (campaigns s) campaignId of
        None \<Rightarrow> (False, s)
      | Some campaign \<Rightarrow>
          if c_status campaign \<noteq> active then (False, s)
          else if list_ex (\<lambda>p. userId p = xu_id user) (participants campaign) then (False, s)
          else
            (let participant = \<lparr>userId = xu_id user, username = xu_username user,
                                enteredAt = now, won = False, prizeId = None\<rparr>;
                 (participant', campaign') =
                   (if c_type campaign = instant_web \<or> c_type campaign = instant_auto
                    then
                      (let (result, drawn) = runInstantLottery campaign participant r1 r2
                       in if res_won result \<and> truthy (res_prizeId result)
                          then (participant\<lparr>won := True, prizeId := res_prizeId result\<rparr>, drawn)
                          else (participant, drawn))
                    else (participant, campaign));
                 entered = campaign'\<lparr>participants := participants campaign' @ [participant']\<rparr>
             in (True, s\<lparr>campaigns := AList.update campaignId entered (campaigns s)\<rparr>)))"

subsection \<open>Later lottery\<close>

text \<open>
  \<open>runLaterLottery\<close>: \<open>eligibleParticipants\<close> holds references into
  \<open>campaign.participants\<close>, so the model keeps positions; \<open>splice(randomIndex, 1)\<close>
  removes one position from the eligible list and the winner is updated in the
  campaign's participant list. The calls of \<open>Math.random\<close> are the stream \<open>rand\<close>, and
  \<open>used\<close> counts the draws taken so far.
\<close>

record DrawState =
  eligibleParticipants :: "nat list"
  members :: "Participant list"
  winners :: "Participant list"
  used :: nat

text \<open>
  The body of the inner loop after its \<open>break\<close> test: one winner is drawn with the
  random value \<open>r\<close> and given the prize \<open>pid\<close>.
\<close>

definition drawWinner :: "random_value \<Rightarrow> string \<Rightarrow> DrawState \<Rightarrow> DrawState" where
  "drawWinner r pid st =
     (let i = randomIndex r (length (eligibleParticipants st));
          w = eligibleParticipants st ! i;
          winner = (members st ! w)\<lparr>won := True, prizeId := Some pid\<rparr>
      in \<lparr>eligibleParticipants =
            take i (eligibleParticipants st) @ drop (Suc i) (eligibleParticipants st),
          members = (members st)[w := winner],
          winners = winners st @ [winner],
          used = Suc (used st)\<rparr>)"

text \<open>
  The inner loop for one prize; the numeric argument counts the iterations left. The
  loop \<open>for (let i = 0; i < prize.quantity; i++)\<close> makes one iteration for each whole
  number \<open>i \<ge> 0\<close> below the quantity: \<open>\<lceil>quantity\<rceil>\<close> of them for a positive quantity
  (one for \<open>0.5\<close>) and none otherwise.
\<close>

fun drawPrize :: "(nat \<Rightarrow> random_value) \<Rightarrow> string \<Rightarrow> nat \<Rightarrow> DrawState \<Rightarrow> DrawState" where
  "drawPrize rand pid 0 st = st"
| "drawPrize rand pid (Suc n) st =
     (if length (eligibleParticipants st) = 0 then st
      else drawPrize rand pid n (drawWinner (rand (used st)) pid st))"

definition drawAll :: "(nat \<Rightarrow> random_value) \<Rightarrow> Prize list \<Rightarrow> DrawState \<Rightarrow> DrawState" where
  "drawAll rand ps st =
     foldl (\<lambda>st prize. drawPrize rand (pz_id prize) (nat \<lceil>quantity prize\<rceil>) st) st ps"

definition runLaterLottery ::
  "string \<Rightarrow> (nat \<Rightarrow> random_value) \<Rightarrow> CampaignService \<Rightarrow> Participant list \<times> CampaignService" where
  "runLaterLottery campaignId rand s =
     (case map_of (campaigns s) campaignId of
        None \<Rightarrow> ([], s)
      | Some campaign \<Rightarrow>
          if c_type campaign \<noteq> later_lottery then ([], s)
          else
            (let st0 = \<lparr>eligibleParticipants =
                         filter (\<lambda>i. \<not> won (participants campaign ! i))
                                [0..<length (participants campaign)],
                       members = participants campaign, winners = [], used = 0\<rparr>;
                 st = drawAll rand (prizes campaign) st0;
                 campaign' = campaign\<lparr>participants := members st\<rparr>
             in (winners st, s\<lparr>campaigns := AList.update campaignId campaign' (campaigns s)\<rparr>)))"

subsection \<open>Sequences of operations\<close>

text \<open>
  The operations that change the service, each with the inputs the model takes from
  outside (generated id, clock, random draws), and the service reached from the empty
  one by a list of them.
\<close>

datatype EngineOp =
    CreateCampaign string string CampaignType string int int "Prize list" CampaignRules int
  | StartCampaign string int
  | EndCampaign string int
  | EnterCampaign string XUser int random_value random_value
  | RunLaterLottery string "nat \<Rightarrow> random_value"

fun applyOp :: "EngineOp \<Rightarrow> CampaignService \<Rightarrow> CampaignService" where
  "applyOp (CreateCampaign gid name type descr startD endD ps rs now) s =
     snd (createCampaign gid name type descr startD endD ps rs now s)"
| "applyOp (StartCampaign cid now) s = snd (startCampaign cid now s)"
| "applyOp (EndCampaign cid now) s = snd (endCampaign cid now s)"
| "applyOp (EnterCampaign cid user now r1 r2) s = snd (enterCampaign cid user now r1 r2 s)"
| "applyOp (RunLaterLottery cid rand) s = snd (runLaterLottery cid rand s)"

definition runOps :: "EngineOp list \<Rightarrow> CampaignService" where
  "runOps ops = foldl (\<lambda>s op. applyOp op s) newCampaignService ops"

text \<open>
  A number is whole when it equals its floor. The prizes handed to \<open>createCampaign\<close>
  are counted when no quantity is negative and, in a campaign of an instant variant,
  every quantity is whole.
\<close>

definition whole :: "real \<Rightarrow> bool" where
  "whole x = (of_int \<lfloor>x\<rfloor> = x)"


section \<open>Scheduler service (services/SchedulerService.ts)\<close>

datatype PostStatus = pending | posted | failed

record ScheduledPost =
  sp_id :: string
  post_text :: string
  scheduledAt :: int
  sp_status :: PostStatus
  mediaUrls :: "string list option"
  sp_createdAt :: int

text \<open>
  \<open>Partial<ScheduledPost>\<close>: every key may be absent (\<open>None\<close>). \<open>mediaUrls\<close> is optional
  in the post itself, so a present key may carry \<open>undefined\<close>.
\<close>

record PostUpdates =
  u_id :: "string option"
  u_text :: "string option"
  u_scheduledAt :: "int option"
  u_status :: "PostStatus option"
  u_mediaUrls :: "string list option option"
  u_createdAt :: "int option"

text \<open>
  The runtime's side of the service: a timer armed by \<open>setTimeout\<close> has a handle, the
  time it fires and the call it makes; \<open>executePost\<close> is asynchronous and waits in
  \<open>publishPost\<close>, holding the post object it read.
\<close>

datatype Callback = ExecutePost string | CheckScheduledPosts

record Timeout =
  handle :: nat
  fireAt :: int
  callback :: Callback

record SchedulerService =
  scheduledPosts :: "(string \<times> ScheduledPost) list"
  timers :: "(string \<times> nat) list"
  isRunning :: bool
  timeouts :: "Timeout list"
  nextHandle :: nat
  publishing :: "(string \<times> ScheduledPost) list"

definition newSchedulerService :: SchedulerService where
  "newSchedulerService =
     \<lparr>scheduledPosts = [], timers = [], isRunning = False, timeouts = [], nextHandle = 0,
      publishing = []\<rparr>"

definition setTimeout :: "Callback \<Rightarrow> int \<Rightarrow> int \<Rightarrow> SchedulerService \<Rightarrow> nat \<times> SchedulerService" where
  "setTimeout cb delay now s =
     (nextHandle s,
      s\<lparr>timeouts := timeouts s @ [\<lparr>handle = nextHandle s, fireAt = now + delay, callback = cb\<rparr>],
        nextHandle := Suc (nextHandle s)\<rparr>)"

definition clearTimeout :: "nat \<Rightarrow> SchedulerService \<Rightarrow> SchedulerService" where
  "clearTimeout h s = s\<lparr>timeouts := filter (\<lambda>t. handle t \<noteq> h) (timeouts s)\<rparr>"

text \<open>
  \<open>executePost\<close> up to its \<open>await\<close>: an unknown id returns at once; otherwise
  \<open>publishPost\<close> is called with the stored post. \<open>finishPost\<close> is the rest of the
  function, run when the publish call resolves (\<open>True\<close>) or rejects (\<open>False\<close>).
\<close>

definition executePost :: "string \<Rightarrow> SchedulerService \<Rightarrow> SchedulerService" where
  "executePost postId s =
     (case map_of (scheduledPosts s) postId of
        None \<Rightarrow> s
      | Some post \<Rightarrow> s\<lparr>publishing := publishing s @ [(postId, post)]\<rparr>)"

definition finishPost :: "bool \<Rightarrow> string \<Rightarrow> ScheduledPost \<Rightarrow> SchedulerService \<Rightarrow> SchedulerService" where
  "finishPost resolved postId post s =
     s\<lparr>scheduledPosts :=
         AList.update postId (post\<lparr>sp_status := (if resolved then posted else failed)\<rparr>)
           (scheduledPosts s),
       timers := AList.delete postId (timers s),
       publishing := remove1 (postId, post) (publishing s)\<rparr>"

text \<open>\<open>setupTimer\<close>; \<open>now\<close> is the clock it reads.\<close>

definition setupTimer :: "ScheduledPost \<Rightarrow> int \<Rightarrow> SchedulerService \<Rightarrow> SchedulerService" where
  "setupTimer post now s =
     (let scheduledTime = scheduledAt post;
          delay = scheduledTime - now
      in if delay \<le> 0 then executePost (sp_id post) s
         else
           (let (timer, s') = setTimeout (ExecutePost (sp_id post)) delay now s
            in s'\<lparr>timers := AList.update (sp_id post) timer (timers s')\<rparr>))"

text \<open>
  \<open>schedulePost\<close>: the generated id is an input; \<open>now\<close> is the clock read by
  \<open>schedulePost\<close> and \<open>later\<close> the clock read afterwards inside \<open>setupTimer\<close>.
\<close>

definition schedulePost ::
  "string \<Rightarrow> int \<Rightarrow> string list option \<Rightarrow> string \<Rightarrow> int \<Rightarrow> int \<Rightarrow> SchedulerService
     \<Rightarrow> ScheduledPost \<times> SchedulerService" where
  "schedulePost txt target media generatedId now later s =
     (let post = \<lparr>sp_id = generatedId, post_text = txt, scheduledAt = target, sp_status = pending,
                  mediaUrls = media, sp_createdAt = now\<rparr>;
          s1 = s\<lparr>scheduledPosts := AList.update (sp_id post) post (scheduledPosts s)\<rparr>
      in (post, if isRunning s1 \<and> target > now then setupTimer post later s1 else s1))"

text \<open>\<open>{...post, ...updates}\<close>: every key present in \<open>updates\<close> replaces the post's.\<close>

definition mergeUpdates :: "ScheduledPost \<Rightarrow> PostUpdates \<Rightarrow> ScheduledPost" where
  "mergeUpdates post updates =
     \<lparr>sp_id = (case u_id updates of None \<Rightarrow> sp_id post | Some v \<Rightarrow> v),
      post_text = (case u_text updates of None \<Rightarrow> post_text post | Some v \<Rightarrow> v),
      scheduledAt = (case u_scheduledAt updates of None \<Rightarrow> scheduledAt post | Some v \<Rightarrow> v),
      sp_status = (case u_status updates of None \<Rightarrow> sp_status post | Some v \<Rightarrow> v),
      mediaUrls = (case u_mediaUrls updates of None \<Rightarrow> mediaUrls post | Some v \<Rightarrow> v),
      sp_createdAt = (case u_createdAt updates of None \<Rightarrow> sp_createdAt post | Some v \<Rightarrow> v)\<rparr>"

text \<open>
  The block \<open>Cancel existing timer\<close>: the timer recorded under the id, if there is one,
  is cleared and its record deleted.
\<close>

definition cancelTimer :: "string \<Rightarrow> SchedulerService \<Rightarrow> SchedulerService" where
  "cancelTimer pid s =
     (case map_of (timers s) pid of
        None \<Rightarrow> s
      | Some existingTimer \<Rightarrow>
          (clearTimeout existingTimer s)\<lparr>timers := AList.delete pid (timers s)\<rparr>)"

text \<open>
  \<open>updateScheduledPost\<close>: \<open>now\<close> is the clock read by the function and \<open>later\<close> the
  clock read afterwards inside \<open>setupTimer\<close>. A \<open>Date\<close> is an object and so counts as
  true: \<open>updates.scheduledAt && ...\<close> asks whether the key is present.
\<close>

definition updateScheduledPost ::
  "string \<Rightarrow> PostUpdates \<Rightarrow> int \<Rightarrow> int \<Rightarrow> SchedulerService
     \<Rightarrow> ScheduledPost option \<times> SchedulerService" where
  "updateScheduledPost pid updates now later s =
     (case map_of (scheduledPosts s) pid of
        None \<Rightarrow> (None, s)
      | Some post \<Rightarrow>
          if sp_status post \<noteq> pending then (None, s)
          else
            (let s1 = cancelTimer pid s;
                 updatedPost = mergeUpdates post updates;
                 s2 = s1\<lparr>scheduledPosts := AList.update pid updatedPost (scheduledPosts s1)\<rparr>
             in (Some updatedPost,
                 if u_scheduledAt updates \<noteq> None \<and> isRunning s2 \<and> scheduledAt updatedPost > now
                 then setupTimer updatedPost later s2 else s2)))"

text \<open>
  \<open>checkScheduledPosts\<close>, the reconciliation sweep, and \<open>start\<close>, which runs the first
  one. The sweep reads the pending posts once and then visits them in order.
\<close>

definition getScheduledPosts :: "PostStatus \<Rightarrow> SchedulerService \<Rightarrow> ScheduledPost list" where
  "getScheduledPosts st s = filter (\<lambda>post. sp_status post = st) (map snd (scheduledPosts s))"

definition checkPost :: "int \<Rightarrow> int \<Rightarrow> SchedulerService \<Rightarrow> ScheduledPost \<Rightarrow> SchedulerService" where
  "checkPost now later s post =
     (if scheduledAt post \<le> now \<and> map_of (timers s) (sp_id post) = None
      then executePost (sp_id post) s
      else if scheduledAt post > now \<and> map_of (timers s) (sp_id post) = None
      then setupTimer post later s
      else s)"

definition checkScheduledPosts :: "int \<Rightarrow> int \<Rightarrow> SchedulerService \<Rightarrow> SchedulerService" where
  "checkScheduledPosts now later s =
     (if \<not> isRunning s then s
      else
        (let pendingPosts = getScheduledPosts pending s;
             s' = foldl (checkPost now later) s pendingPosts
         in snd (setTimeout CheckScheduledPosts 60000 later s')))"

definition start :: "int \<Rightarrow> int \<Rightarrow> SchedulerService \<Rightarrow> SchedulerService" where
  "start now later s =
     (if isRunning s then s else checkScheduledPosts now later (s\<lparr>isRunning := True\<rparr>))"

text \<open>The post that \<open>schedulePost\<close> builds, and an update that carries no key.\<close>

definition newPost :: "string \<Rightarrow> string \<Rightarrow> int \<Rightarrow> string list option \<Rightarrow> int \<Rightarrow> ScheduledPost" where
  "newPost generatedId txt target media now =
     \<lparr>sp_id = generatedId, post_text = txt, scheduledAt = target, sp_status = pending,
      mediaUrls = media, sp_createdAt = now\<rparr>"

definition noUpdates :: PostUpdates where
  "noUpdates = \<lparr>u_id = None, u_text = None, u_scheduledAt = None, u_status = None,
                u_mediaUrls = None, u_createdAt = None\<rparr>"

section \<open>Properties of the stored campaigns\<close>

text \<open>\<open>everyCampaign P s\<close>: every campaign that \<open>getCampaign\<close> can return satisfies \<open>P\<close>.\<close>

definition everyCampaign :: "(Campaign \<Rightarrow> bool) \<Rightarrow> CampaignService \<Rightarrow> bool" where
  "everyCampaign P s = (\<forall>cid c. map_of (campaigns s) cid = Some c \<longrightarrow> P c)"

text \<open>At most one participant record per user id.\<close>

definition uniqueUsers :: "Campaign \<Rightarrow> bool" where
  "uniqueUsers c = distinct (map userId (participants c))"



text \<open>
  The number of participants who hold a prize's id as their awarded prize, and the
  statement that for every prize this number is \<open>quantity - remaining\<close>.
\<close>

definition awarded :: "Campaign \<Rightarrow> Prize \<Rightarrow> nat" where
  "awarded c prize = length (filter (\<lambda>p. prizeId p = Some (pz_id prize)) (participants c))"

definition awardsCounted :: "Campaign \<Rightarrow> bool" where
  "awardsCounted c =
     list_all (\<lambda>prize. quantity prize - remaining prize = real (awarded c prize)) (prizes c)"

text \<open>
  The state in which \<open>runLaterLottery\<close> enters its loops, the facts that hold of the
  eligible positions throughout (no position twice, each one a participant who has
  not won), and what any number of draws does to a state.
\<close>

definition initialDraw :: "Participant list \<Rightarrow> DrawState" where
  "initialDraw ps =
     \<lparr>eligibleParticipants = filter (\<lambda>i. \<not> won (ps ! i)) [0..<length ps],
      members = ps, winners = [], used = 0\<rparr>"

definition drawInv :: "DrawState \<Rightarrow> bool" where
  "drawInv st =
     (distinct (eligibleParticipants st)
      \<and> (\<forall>i \<in> set (eligibleParticipants st). i < length (members st) \<and> \<not> won (members st ! i)))"

definition drawStep :: "DrawState \<Rightarrow> DrawState \<Rightarrow> bool" where
  "drawStep st st' =
     (drawInv st'
      \<and> set (eligibleParticipants st') \<subseteq> set (eligibleParticipants st)
      \<and> length (winners st') + length (eligibleParticipants st')
          = length (winners st) + length (eligibleParticipants st)
      \<and> length (filter won (members st')) + length (eligibleParticipants st')
          = length (filter won (members st)) + length (eligibleParticipants st)
      \<and> length (members st') = length (members st)
      \<and> (\<forall>i. i \<notin> set (eligibleParticipants st) \<longrightarrow> members st' ! i = members st ! i)
      \<and> (\<exists>ws. winners st' = winners st @ ws \<and> (\<forall>w \<in> set ws. won w)))"

section \<open>Sample values\<close>

definition sampleRules :: "real option \<Rightarrow> CampaignRules" where
  "sampleRules w =
     \<lparr>requireFollow = False, requireRetweet = False, requireLike = False,
      requireHashtag = None, winProbability = w\<rparr>"

definition samplePrize :: "string \<Rightarrow> real \<Rightarrow> Prize" where
  "samplePrize pid n =
     \<lparr>pz_id = pid, pz_name = ''Prize'', quantity = n, remaining = n, imageUrl = None\<rparr>"

definition sampleUser :: "string \<Rightarrow> XUser" where
  "sampleUser u =
     \<lparr>xu_id = u, xu_username = u, displayName = u, followers = 100, following = 50\<rparr>"

text \<open>A campaign \<open>c1\<close> with one prize of quantity 1, created at time 0 and started at 1.\<close>

definition sampleOps :: "CampaignType \<Rightarrow> real option \<Rightarrow> EngineOp list" where
  "sampleOps ty w =
     [CreateCampaign ''c1'' ''Test'' ty ''Test'' 0 10000 [samplePrize ''prize1'' 1]
        (sampleRules w) 0,
      StartCampaign ''c1'' 1]"

definition sampleService :: "CampaignType \<Rightarrow> real option \<Rightarrow> CampaignService" where
  "sampleService ty w = runOps (sampleOps ty w)"

definition sampleCampaign :: "CampaignType \<Rightarrow> real option \<Rightarrow> CampaignStatus \<Rightarrow> Campaign" where
  "sampleCampaign ty w st =
     \<lparr>c_id = ''c1'', c_name = ''Test'', c_type = ty, description = ''Test'',
      startDate = 0, endDate = 10000, prizes = [samplePrize ''prize1'' 1],
      participants = [], c_status = st, rules = sampleRules w,
      c_createdAt = 0, updatedAt = 1\<rparr>"

definition sampleEntrant :: "string \<Rightarrow> int \<Rightarrow> bool \<Rightarrow> string option \<Rightarrow> Participant" where
  "sampleEntrant u t w pid = \<lparr>userId = u, username = u, enteredAt = t, won = w, prizeId = pid\<rparr>"

text \<open>A running scheduler: \<open>start\<close> on the new service, at time 0.\<close>

definition sampleScheduler :: SchedulerService where
  "sampleScheduler = start 0 0 newSchedulerService"

text \<open>
  Three entries into an \<open>instant_auto\<close> campaign that always wins (the third repeats
  the first user), a \<open>later_lottery\<close> campaign with one earlier winner and one
  participant still eligible, and a post scheduled at time 1000 for time 500.
\<close>

definition sampleEntries :: "EngineOp list" where
  "sampleEntries =
     sampleOps instant_auto (Some 100)
       @ [EnterCampaign ''c1'' (sampleUser ''u1'') 5 (random_of 0) (random_of 0),
          EnterCampaign ''c1'' (sampleUser ''u2'') 6 (random_of 0) (random_of 0),
          EnterCampaign ''c1'' (sampleUser ''u1'') 7 (random_of 0) (random_of 0)]"

definition twoEntrants :: Campaign where
  "twoEntrants = (sampleCampaign later_lottery None active)
     \<lparr>participants := [sampleEntrant ''u1'' 5 True (Some ''prize1''),
                       sampleEntrant ''u2'' 6 False None]\<rparr>"

definition samplePost :: ScheduledPost where
  "samplePost = newPost ''p1'' ''hello'' 500 None 1000"

definition sampleUpdates :: PostUpdates where
  "sampleUpdates = noUpdates\<lparr>u_id := Some ''other'', u_status := Some posted\<rparr>"

definition scheduledPast :: SchedulerService where
  "scheduledPast = snd (schedulePost ''hello'' 500 None ''p1'' 1000 1000 sampleScheduler)"

text \<open>
  A \<open>later_lottery\<close> campaign with one entry, drawn once, and the campaign as it is
  stored after the draw.
\<close>

definition sampleDraw :: "EngineOp list" where
  "sampleDraw =
     sampleOps later_lottery None
       @ [EnterCampaign ''c1'' (sampleUser ''u1'') 5 (random_of 0) (random_of 0),
          RunLaterLottery ''c1'' (\<lambda>n. random_of 0)]"

definition sampleDrawn :: Campaign where
  "sampleDrawn = (sampleCampaign later_lottery None active)
     \<lparr>participants := [sampleEntrant ''u1'' 5 True (Some ''prize1'')]\<rparr>"

text \<open>
  Campaigns created with given prizes and started: a \<open>later_lottery\<close> one with a
  quantity of \<open>-2\<close>; an \<open>instant_auto\<close> one with a quantity of one half and one entry
  that wins; \<open>later_lottery\<close> ones with quantities \<open>2\<close> and \<open>-1\<close> and two entries, and
  with a quantity of one half and one entry. And an update that sets \<open>status\<close> and moves
  the target time to 2001.
\<close>

definition campaignOps :: "CampaignType \<Rightarrow> Prize list \<Rightarrow> EngineOp list" where
  "campaignOps ty ps =
     [CreateCampaign ''c1'' ''Test'' ty ''Test'' 0 10000 ps (sampleRules (Some 100)) 0,
      StartCampaign ''c1'' 1]"

definition prizeCampaign :: "CampaignType \<Rightarrow> Prize list \<Rightarrow> Campaign" where
  "prizeCampaign ty ps = (sampleCampaign ty (Some 100) active)\<lparr>prizes := ps\<rparr>"

definition negativeOps :: "EngineOp list" where
  "negativeOps = campaignOps later_lottery [samplePrize ''prize1'' (- 2)]"

definition fractionOps :: "EngineOp list" where
  "fractionOps =
     campaignOps instant_auto [samplePrize ''prize1'' (1 / 2)]
       @ [EnterCampaign ''c1'' (sampleUser ''u1'') 5 (random_of 0) (random_of 0)]"

definition mixedOps :: "EngineOp list" where
  "mixedOps =
     campaignOps later_lottery [samplePrize ''prize1'' 2, samplePrize ''prize2'' (- 1)]
       @ [EnterCampaign ''c1'' (sampleUser ''u1'') 5 (random_of 0) (random_of 0),
          EnterCampaign ''c1'' (sampleUser ''u2'') 6 (random_of 0) (random_of 0)]"

definition halfOps :: "EngineOp list" where
  "halfOps =
     campaignOps later_lottery [samplePrize ''prize1'' (1 / 2)]
       @ [EnterCampaign ''c1'' (sampleUser ''u1'') 5 (random_of 0) (random_of 0)]"

lemmas ops_defs = campaignOps_def prizeCampaign_def negativeOps_def fractionOps_def
  mixedOps_def halfOps_def

definition raceUpdates :: PostUpdates where
  "raceUpdates = noUpdates\<lparr>u_status := Some posted, u_scheduledAt := Some 2001\<rparr>"

lemmas sample_defs =
  sampleRules_def samplePrize_def sampleUser_def sampleOps_def sampleService_def
  sampleCampaign_def runOps_def newCampaignService_def createCampaign_def startCampaign_def
  endCampaign_def

section \<open>Basic facts\<close>

lemma sampleService_eq:
  "sampleService ty w = \<lparr>campaigns = [(''c1'', sampleCampaign ty w active)]\<rparr>"
  by (simp add: sample_defs Let_def)

lemma random_of_value: "0 \<le> r \<Longrightarrow> r < 1 \<Longrightarrow> the_value (random_of r) = r"
  by (simp add: random_of.rep_eq)

lemma the_value_range: "0 \<le> the_value r \<and> the_value r < 1"
  using the_value [of r] by simp

lemma randomIndex_less: "0 < n \<Longrightarrow> randomIndex r n < n"
proof -
  assume n: "0 < n"
  have "the_value r * real n < real n"
    using the_value_range [of r] n by simp
  moreover have "0 \<le> the_value r * real n"
    using the_value_range [of r] by simp
  ultimately show ?thesis
    unfolding randomIndex_def by (simp add: floor_less_iff nat_less_iff)
qed

text \<open>
  One instant draw either loses and changes nothing, or wins one prize that was
  available and takes one from that prize's \<open>remaining\<close>.
\<close>

lemma runInstantLottery_cases:
  "runInstantLottery c p r1 r2 = (\<lparr>res_won = False, res_prizeId = None\<rparr>, c)
   \<or> (\<exists>k < length (prizes c). 0 < remaining (prizes c ! k)
         \<and> runInstantLottery c p r1 r2
             = (\<lparr>res_won = True, res_prizeId = Some (pz_id (prizes c ! k))\<rparr>,
                c\<lparr>prizes := (prizes c)[k := (prizes c ! k)
                                   \<lparr>remaining := remaining (prizes c ! k) - 1\<rparr>]\<rparr>))"
proof -
  define av where "av = filter (\<lambda>i. remaining (prizes c ! i) > 0) [0..<length (prizes c)]"
  define k where "k = av ! randomIndex r2 (length av)"
  show ?thesis
  proof (cases "av = []")
    case True
    then show ?thesis by (simp add: runInstantLottery_def Let_def av_def)
  next
    case False
    then have "randomIndex r2 (length av) < length av"
      by (simp add: randomIndex_less)
    then have "k \<in> set av" by (simp add: k_def)
    then have k: "k < length (prizes c)" "0 < remaining (prizes c ! k)"
      by (simp_all add: av_def)
    have "runInstantLottery c p r1 r2 = (\<lparr>res_won = False, res_prizeId = None\<rparr>, c)
        \<or> runInstantLottery c p r1 r2
             = (\<lparr>res_won = True, res_prizeId = Some (pz_id (prizes c ! k))\<rparr>,
                c\<lparr>prizes := (prizes c)[k := (prizes c ! k)
                                   \<lparr>remaining := remaining (prizes c ! k) - 1\<rparr>]\<rparr>)"
      using False
      by (simp add: runInstantLottery_def Let_def av_def [symmetric] k_def [symmetric])
    with k show ?thesis by blast
  qed
qed

lemma whole_Ints: "whole x \<longleftrightarrow> x \<in> \<int>"
proof
  assume "whole x"
  then have "x = of_int \<lfloor>x\<rfloor>" unfolding whole_def by (rule sym)
  then show "x \<in> \<int>" by (metis Ints_of_int)
next
  assume "x \<in> \<int>"
  then obtain n where "x = of_int n" by (rule Ints_cases)
  then show "whole x" unfolding whole_def by simp
qed

lemma whole_numbers [simp]: "whole 0" "whole 1" "whole (numeral n)"
  by (simp_all add: whole_Ints)



lemma whole_count: "whole x \<Longrightarrow> 0 \<le> x \<Longrightarrow> real (nat \<lceil>x\<rceil>) = x"
proof -
  assume w: "whole x" and x: "0 \<le> x"
  from w obtain n where n: "x = of_int n"
    by (auto simp: whole_Ints elim: Ints_cases)
  with x have "0 \<le> n" by simp
  with n show ?thesis by simp
qed

lemmas draw_defs =
  enterCampaign_def runInstantLottery_def runLaterLottery_def drawAll_def drawWinner_def
  number_or_def truthy_def randomIndex_def random_of.rep_eq Let_def case_prod_unfold
  sampleEntrant_def

lemma sampleEntries_run:
  "runOps sampleEntries =
     \<lparr>campaigns = [(''c1'', (sampleCampaign instant_auto (Some 100) active)
        \<lparr>prizes := [(samplePrize ''prize1'' 1)\<lparr>remaining := 0\<rparr>],
         participants := [sampleEntrant ''u1'' 5 True (Some ''prize1''),
                          sampleEntrant ''u2'' 6 False None]\<rparr>)]\<rparr>"
  by (simp add: sampleEntries_def sample_defs draw_defs)



lemma mixedOps_run:
  "runOps mixedOps
     = \<lparr>campaigns = [(''c1'', (prizeCampaign later_lottery
                          [samplePrize ''prize1'' 2, samplePrize ''prize2'' (- 1)])
          \<lparr>participants := [sampleEntrant ''u1'' 5 False None,
                            sampleEntrant ''u2'' 6 False None]\<rparr>)]\<rparr>"
  by (simp add: ops_defs sample_defs draw_defs)

lemma halfOps_run:
  "runOps halfOps
     = \<lparr>campaigns = [(''c1'', (prizeCampaign later_lottery [samplePrize ''prize1'' (1 / 2)])
          \<lparr>participants := [sampleEntrant ''u1'' 5 False None]\<rparr>)]\<rparr>"
  by (simp add: ops_defs sample_defs draw_defs)

section \<open>Status transitions\<close>

text \<open>
  C7. Ending a campaign that is already \<open>ended\<close> succeeds (the result is the campaign,
  not the not-found sentinel), the returned and the stored campaign have status
  \<open>ended\<close>, and nothing but the campaign's \<open>updatedAt\<close> stamp changes.
\<close>

theorem endCampaign_ended_idempotent:
  assumes "map_of (campaigns s) cid = Some campaign" and "c_status campaign = ended"
  shows "\<exists>campaign' s'. endCampaign cid now s = (Some campaign', s')
           \<and> c_status campaign' = ended
           \<and> campaign' = campaign\<lparr>updatedAt := now\<rparr>
           \<and> map_of (campaigns s') = (map_of (campaigns s))(cid \<mapsto> campaign')"
  using assms by (simp add: endCampaign_def Let_def update_conv')

theorem endCampaign_ended_idempotent_witness:
  "map_of (campaigns \<lparr>campaigns = [(''c1'', sampleCampaign later_lottery None ended)]\<rparr>) ''c1''
     = Some (sampleCampaign later_lottery None ended)
   \<and> c_status (sampleCampaign later_lottery None ended) = ended
   \<and> (\<exists>campaign' s'.
        endCampaign ''c1'' 7 \<lparr>campaigns = [(''c1'', sampleCampaign later_lottery None ended)]\<rparr>
          = (Some campaign', s')
        \<and> c_status campaign' = ended
        \<and> campaign' = (sampleCampaign later_lottery None ended)\<lparr>updatedAt := 7\<rparr>)"
proof -
  have h1: "map_of (campaigns \<lparr>campaigns = [(''c1'', sampleCampaign later_lottery None ended)]\<rparr>)
              ''c1'' = Some (sampleCampaign later_lottery None ended)"
    by simp
  have h2: "c_status (sampleCampaign later_lottery None ended) = ended"
    by (simp add: sampleCampaign_def)
  from endCampaign_ended_idempotent [OF h1 h2, of 7] h1 h2 show ?thesis by blast
qed

text \<open>
  C8. For a campaign in the store, \<open>startCampaign\<close> returns it with status \<open>active\<close>
  and stores it so, whatever the status was before (\<open>ended\<close> included); afterwards
  \<open>enterCampaign\<close> succeeds for any user who has not entered yet.
\<close>

theorem startCampaign_reactivates:
  assumes "map_of (campaigns s) cid = Some campaign"
  shows "\<exists>s'. startCampaign cid now s
                 = (Some (campaign\<lparr>c_status := active, updatedAt := now\<rparr>), s')
           \<and> map_of (campaigns s')
               = (map_of (campaigns s))(cid \<mapsto> campaign\<lparr>c_status := active, updatedAt := now\<rparr>)
           \<and> (\<not> list_ex (\<lambda>p. userId p = xu_id user) (participants campaign)
                \<longrightarrow> fst (enterCampaign cid user now' r1 r2 s'))"
  using assms
  by (simp add: startCampaign_def enterCampaign_def Let_def update_conv' case_prod_unfold)

theorem startCampaign_reactivates_witness:
  "map_of (campaigns \<lparr>campaigns = [(''c1'', sampleCampaign instant_auto None ended)]\<rparr>) ''c1''
     = Some (sampleCampaign instant_auto None ended)
   \<and> \<not> list_ex (\<lambda>p. userId p = xu_id (sampleUser ''u1''))
          (participants (sampleCampaign instant_auto None ended))
   \<and> (\<exists>s'. startCampaign ''c1'' 7 \<lparr>campaigns = [(''c1'', sampleCampaign instant_auto None ended)]\<rparr>
               = (Some ((sampleCampaign instant_auto None ended)\<lparr>c_status := active, updatedAt := 7\<rparr>), s')
          \<and> fst (enterCampaign ''c1'' (sampleUser ''u1'') 8 (random_of 0) (random_of 0) s'))"
proof -
  have h1: "map_of (campaigns \<lparr>campaigns = [(''c1'', sampleCampaign instant_auto None ended)]\<rparr>)
              ''c1'' = Some (sampleCampaign instant_auto None ended)"
    by simp
  have h2: "\<not> list_ex (\<lambda>p. userId p = xu_id (sampleUser ''u1''))
                (participants (sampleCampaign instant_auto None ended))"
    by (simp add: sampleCampaign_def)
  from startCampaign_reactivates
         [OF h1, of 7 "sampleUser ''u1''" 8 "random_of 0" "random_of 0"] h1 h2
  show ?thesis by blast
qed

text \<open>
  C9. \<open>enterCampaign\<close> looks at the status only: for an \<open>active\<close> campaign and a user
  who has not entered, the entry succeeds at every clock reading \<open>now\<close> and appends the
  user's participant record, also when \<open>now\<close> lies outside the campaign's dates. The
  date window is tested by \<open>getActiveCampaigns\<close>: an \<open>active\<close> campaign is listed
  there exactly when \<open>startDate \<le> now \<le> endDate\<close>.
\<close>

theorem enterCampaign_ignores_dates:
  assumes "map_of (campaigns s) cid = Some campaign"
    and "c_status campaign = active"
    and "\<not> list_ex (\<lambda>p. userId p = xu_id user) (participants campaign)"
  shows "fst (enterCampaign cid user now r1 r2 s)
       \<and> (\<exists>entered p.
             map_of (campaigns (snd (enterCampaign cid user now r1 r2 s))) cid = Some entered
             \<and> participants entered = participants campaign @ [p]
             \<and> userId p = xu_id user \<and> enteredAt p = now)
       \<and> (campaign \<in> set (getActiveCampaigns now s)
             \<longleftrightarrow> startDate campaign \<le> now \<and> now \<le> endDate campaign)"
proof -
  have "campaign \<in> snd ` set (campaigns s)"
    using assms(1) by (force dest: map_of_SomeD)
  then have c: "campaign \<in> set (getActiveCampaigns now s)
             \<longleftrightarrow> startDate campaign \<le> now \<and> now \<le> endDate campaign"
    using assms(2) by (auto simp: getActiveCampaigns_def)
  have a: "fst (enterCampaign cid user now r1 r2 s)"
    using assms by (simp add: enterCampaign_def Let_def case_prod_unfold)
  have b: "\<exists>entered p.
             map_of (campaigns (snd (enterCampaign cid user now r1 r2 s))) cid = Some entered
             \<and> participants entered = participants campaign @ [p]
             \<and> userId p = xu_id user \<and> enteredAt p = now"
    using assms
    by (simp add: enterCampaign_def Let_def case_prod_unfold update_conv' runInstantLottery_def)
  from a b c show ?thesis by blast
qed

theorem enterCampaign_ignores_dates_witness:
  "map_of (campaigns (sampleService later_lottery None)) ''c1''
     = Some (sampleCampaign later_lottery None active)
   \<and> c_status (sampleCampaign later_lottery None active) = active
   \<and> \<not> list_ex (\<lambda>p. userId p = xu_id (sampleUser ''u1''))
          (participants (sampleCampaign later_lottery None active))
   \<and> endDate (sampleCampaign later_lottery None active) < 20000
   \<and> fst (enterCampaign ''c1'' (sampleUser ''u1'') 20000 (random_of 0) (random_of 0)
            (sampleService later_lottery None))
   \<and> sampleCampaign later_lottery None active
       \<notin> set (getActiveCampaigns 20000 (sampleService later_lottery None))"
proof -
  have h1: "map_of (campaigns (sampleService later_lottery None)) ''c1''
              = Some (sampleCampaign later_lottery None active)"
    by (simp add: sampleService_eq)
  have h2: "c_status (sampleCampaign later_lottery None active) = active"
    by (simp add: sampleCampaign_def)
  have h3: "\<not> list_ex (\<lambda>p. userId p = xu_id (sampleUser ''u1''))
                (participants (sampleCampaign later_lottery None active))"
    by (simp add: sampleCampaign_def)
  have h4: "endDate (sampleCampaign later_lottery None active) < 20000"
    by (simp add: sampleCampaign_def)
  from enterCampaign_ignores_dates
         [OF h1 h2 h3, of 20000 "random_of 0" "random_of 0"] h1 h2 h3 h4
  show ?thesis by simp
qed

section \<open>Entering a campaign\<close>

lemma everyCampaign_update:
  "everyCampaign P s \<Longrightarrow> P c \<Longrightarrow> everyCampaign P (s\<lparr>campaigns := AList.update cid c (campaigns s)\<rparr>)"
  by (simp add: everyCampaign_def update_conv')

lemma everyCampaign_lookup:
  "everyCampaign P s \<Longrightarrow> map_of (campaigns s) cid = Some c \<Longrightarrow> P c"
  by (simp add: everyCampaign_def)

lemma everyCampaign_new: "everyCampaign P newCampaignService"
  by (simp add: everyCampaign_def newCampaignService_def)

lemma runInstantLottery_participants:
  "participants (snd (runInstantLottery c p r1 r2)) = participants c"
  by (simp add: runInstantLottery_def Let_def)

lemma map_update_same: "(map f xs)[i := f (xs ! i)] = map f xs"
proof (cases "i < length xs")
  case True
  then have "f (xs ! i) = map f xs ! i" by simp
  then show ?thesis by (simp only: list_update_id)
next
  case False
  then show ?thesis by (simp add: list_update_beyond)
qed

lemma drawWinner_userIds:
  "map userId (members (drawWinner r pid st)) = map userId (members st)"
  by (simp add: drawWinner_def Let_def map_update map_update_same)

lemma drawPrize_userIds:
  "map userId (members (drawPrize rand pid n st)) = map userId (members st)"
  by (induction n arbitrary: st) (simp_all add: drawWinner_userIds)

lemma drawAll_userIds:
  "map userId (members (drawAll rand ps st)) = map userId (members st)"
  unfolding drawAll_def
  by (induction ps arbitrary: st) (simp_all add: drawPrize_userIds)

lemma uniqueUsers_createCampaign:
  "everyCampaign uniqueUsers s \<Longrightarrow>
   everyCampaign uniqueUsers (snd (createCampaign gid name type descr startD endD ps rs now s))"
  unfolding createCampaign_def Let_def snd_conv
  by (rule everyCampaign_update) (simp_all add: uniqueUsers_def)

lemma uniqueUsers_startCampaign:
  "everyCampaign uniqueUsers s \<Longrightarrow> everyCampaign uniqueUsers (snd (startCampaign cid now s))"
  by (auto simp: startCampaign_def Let_def uniqueUsers_def split: option.splits
           intro!: everyCampaign_update dest: everyCampaign_lookup)

lemma uniqueUsers_endCampaign:
  "everyCampaign uniqueUsers s \<Longrightarrow> everyCampaign uniqueUsers (snd (endCampaign cid now s))"
  by (auto simp: endCampaign_def Let_def uniqueUsers_def split: option.splits
           intro!: everyCampaign_update dest: everyCampaign_lookup)

lemma uniqueUsers_enterCampaign:
  assumes "everyCampaign uniqueUsers s"
  shows "everyCampaign uniqueUsers (snd (enterCampaign cid user now r1 r2 s))"
proof (cases "map_of (campaigns s) cid")
  case None
  then show ?thesis using assms by (simp add: enterCampaign_def)
next
  case (Some c)
  then have u: "distinct (map userId (participants c))"
    using assms by (auto simp: uniqueUsers_def dest: everyCampaign_lookup)
  show ?thesis
  proof (cases "c_status c \<noteq> active \<or> list_ex (\<lambda>p. userId p = xu_id user) (participants c)")
    case True
    then show ?thesis using assms Some by (auto simp: enterCampaign_def)
  next
    case False
    then have fresh: "xu_id user \<notin> userId ` set (participants c)"
      by (auto simp: list_ex_iff)
    show ?thesis
      using False Some u fresh assms
      by (auto simp: enterCampaign_def Let_def case_prod_unfold uniqueUsers_def
                     runInstantLottery_participants
               intro!: everyCampaign_update)
  qed
qed

lemma uniqueUsers_runLaterLottery:
  assumes "everyCampaign uniqueUsers s"
  shows "everyCampaign uniqueUsers (snd (runLaterLottery cid rand s))"
proof (cases "map_of (campaigns s) cid")
  case None
  then show ?thesis using assms by (simp add: runLaterLottery_def)
next
  case (Some c)
  then have u: "distinct (map userId (participants c))"
    using assms by (auto simp: uniqueUsers_def dest: everyCampaign_lookup)
  show ?thesis
    using Some u assms
    by (auto simp: runLaterLottery_def Let_def uniqueUsers_def drawAll_userIds
             intro!: everyCampaign_update)
qed

lemma uniqueUsers_applyOp:
  "everyCampaign uniqueUsers s \<Longrightarrow> everyCampaign uniqueUsers (applyOp op s)"
  by (cases op)
     (simp_all add: uniqueUsers_createCampaign uniqueUsers_startCampaign uniqueUsers_endCampaign
        uniqueUsers_enterCampaign uniqueUsers_runLaterLottery)

lemma foldl_applyOp_invariant:
  assumes "\<And>op s. op \<in> set ops \<Longrightarrow> I s \<Longrightarrow> I (applyOp op s)" and "I s"
  shows "I (foldl (\<lambda>s op. applyOp op s) s ops)"
  using assms by (induction ops arbitrary: s) simp_all

lemma uniqueUsers_runOps: "everyCampaign uniqueUsers (runOps ops)"
  unfolding runOps_def
  by (rule foldl_applyOp_invariant) (simp_all add: uniqueUsers_applyOp everyCampaign_new)

text \<open>
  C6. \<open>enterCampaign\<close> returns \<open>false\<close> and leaves the service as it was when the
  campaign is unknown, when its status is not \<open>active\<close>, or when a participant with
  the user's id is already recorded. Consequently, in every service reached from the
  empty one by any operations, no campaign holds two participants with one user id.
\<close>

theorem enterCampaign_rejects:
  "((map_of (campaigns s) cid = None
      \<or> (\<exists>c. map_of (campaigns s) cid = Some c
            \<and> (c_status c \<noteq> active \<or> list_ex (\<lambda>p. userId p = xu_id user) (participants c))))
     \<longrightarrow> enterCampaign cid user now r1 r2 s = (False, s))
   \<and> everyCampaign uniqueUsers (runOps ops)"
proof (intro conjI impI)
  assume "map_of (campaigns s) cid = None
      \<or> (\<exists>c. map_of (campaigns s) cid = Some c
            \<and> (c_status c \<noteq> active \<or> list_ex (\<lambda>p. userId p = xu_id user) (participants c)))"
  then show "enterCampaign cid user now r1 r2 s = (False, s)"
  proof
    assume "map_of (campaigns s) cid = None"
    then show ?thesis by (simp add: enterCampaign_def)
  next
    assume "\<exists>c. map_of (campaigns s) cid = Some c
            \<and> (c_status c \<noteq> active \<or> list_ex (\<lambda>p. userId p = xu_id user) (participants c))"
    then obtain c where "map_of (campaigns s) cid = Some c"
      and "c_status c \<noteq> active \<or> list_ex (\<lambda>p. userId p = xu_id user) (participants c)"
      by blast
    then show ?thesis by (auto simp: enterCampaign_def)
  qed
next
  show "everyCampaign uniqueUsers (runOps ops)"
    by (rule uniqueUsers_runOps)
qed

theorem enterCampaign_rejects_witness:
  "enterCampaign ''c9'' (sampleUser ''u1'') 8 (random_of 0) (random_of 0) (runOps sampleEntries)
     = (False, runOps sampleEntries)
   \<and> enterCampaign ''c1'' (sampleUser ''u1'') 8 (random_of 0) (random_of 0) (runOps sampleEntries)
     = (False, runOps sampleEntries)
   \<and> enterCampaign ''c1'' (sampleUser ''u3'') 8 (random_of 0) (random_of 0)
        \<lparr>campaigns = [(''c1'', sampleCampaign later_lottery None ended)]\<rparr>
     = (False, \<lparr>campaigns = [(''c1'', sampleCampaign later_lottery None ended)]\<rparr>)
   \<and> everyCampaign uniqueUsers (runOps sampleEntries)
   \<and> map userId (participants (the (map_of (campaigns (runOps sampleEntries)) ''c1'')))
       = [''u1'', ''u2'']"
proof -
  have a: "map_of (campaigns (runOps sampleEntries)) ''c9'' = None"
    by (simp add: sampleEntries_run)
  have b: "\<exists>c. map_of (campaigns (runOps sampleEntries)) ''c1'' = Some c
             \<and> (c_status c \<noteq> active
                \<or> list_ex (\<lambda>p. userId p = xu_id (sampleUser ''u1'')) (participants c))"
    by (simp add: sampleEntries_run sampleUser_def sampleEntrant_def)
  have c: "\<exists>c. map_of (campaigns \<lparr>campaigns = [(''c1'', sampleCampaign later_lottery None ended)]\<rparr>) ''c1''
                = Some c
             \<and> (c_status c \<noteq> active
                \<or> list_ex (\<lambda>p. userId p = xu_id (sampleUser ''u3'')) (participants c))"
    by (simp add: sampleCampaign_def)
  have d: "map userId (participants (the (map_of (campaigns (runOps sampleEntries)) ''c1'')))
       = [''u1'', ''u2'']"
    by (simp add: sampleEntries_run sampleEntrant_def)
  from enterCampaign_rejects
         [of "runOps sampleEntries" "''c9''" "sampleUser ''u1''" 8 "random_of 0" "random_of 0"
             sampleEntries]
       enterCampaign_rejects
         [of "runOps sampleEntries" "''c1''" "sampleUser ''u1''" 8 "random_of 0" "random_of 0"
             sampleEntries]
       enterCampaign_rejects
         [of "\<lparr>campaigns = [(''c1'', sampleCampaign later_lottery None ended)]\<rparr>" "''c1''"
             "sampleUser ''u3''" 8 "random_of 0" "random_of 0" sampleEntries]
       a b c d
  show ?thesis by blast
qed

section \<open>The later lottery\<close>

lemma drawStep_refl: "drawInv st \<Longrightarrow> drawStep st st"
  by (simp add: drawStep_def)

lemma drawStep_trans:
  assumes "drawStep a b" and "drawStep b c"
  shows "drawStep a c"
  using assms unfolding drawStep_def
  apply (intro conjI)
  apply simp
  apply blast
  apply simp
  apply simp
  apply simp
  apply (metis subsetD)
  apply (elim conjE exE)
  subgoal for ws ws' by (rule exI [of _ "ws @ ws'"]) auto
  done

lemma remove_nth_set:
  assumes "distinct xs" and "i < length xs"
  shows "set (take i xs @ drop (Suc i) xs) = set xs - {xs ! i}"
    and "distinct (take i xs @ drop (Suc i) xs)"
proof -
  have xs: "xs = take i xs @ xs ! i # drop (Suc i) xs"
    using assms(2) by (rule id_take_nth_drop)
  have d: "distinct (take i xs @ xs ! i # drop (Suc i) xs)"
    using assms(1) xs by simp
  from d show "distinct (take i xs @ drop (Suc i) xs)" by auto
  have "set xs = set (take i xs @ xs ! i # drop (Suc i) xs)"
    using xs by simp
  with d show "set (take i xs @ drop (Suc i) xs) = set xs - {xs ! i}"
    by auto
qed

lemma won_count_update:
  assumes "w < length xs" and "\<not> won (xs ! w)"
  shows "length (filter won (xs[w := (xs ! w)\<lparr>won := True, prizeId := q\<rparr>]))
           = Suc (length (filter won xs))"
proof -
  have xs: "xs = take w xs @ xs ! w # drop (Suc w) xs"
    using assms(1) by (rule id_take_nth_drop)
  have "length (filter won xs)
          = length (filter won (take w xs)) + length (filter won (drop (Suc w) xs))"
    by (subst xs) (simp add: assms(2))
  moreover have "length (filter won (xs[w := (xs ! w)\<lparr>won := True, prizeId := q\<rparr>]))
          = length (filter won (take w xs)) + Suc (length (filter won (drop (Suc w) xs)))"
    by (simp add: upd_conv_take_nth_drop [OF assms(1)])
  ultimately show ?thesis by simp
qed

lemma drawWinner_step:
  assumes inv: "drawInv st" and ne: "eligibleParticipants st \<noteq> []"
  shows "drawStep st (drawWinner r pid st)"
proof -
  define el where "el = eligibleParticipants st"
  define i where "i = randomIndex r (length el)"
  define w where "w = el ! i"
  have i: "i < length el"
    unfolding i_def using ne by (simp add: randomIndex_less el_def)
  have d: "distinct el" and el: "\<forall>j \<in> set el. j < length (members st) \<and> \<not> won (members st ! j)"
    using inv by (simp_all add: drawInv_def el_def)
  have wel: "w \<in> set el" using i by (simp add: w_def)
  then have w: "w < length (members st)" and nw: "\<not> won (members st ! w)"
    using el by auto
  have s: "set (take i el @ drop (Suc i) el) = set el - {w}"
    and d': "distinct (take i el @ drop (Suc i) el)"
    using remove_nth_set [OF d i] by (simp_all add: w_def)
  have st': "drawWinner r pid st =
      \<lparr>eligibleParticipants = take i el @ drop (Suc i) el,
       members = (members st)[w := (members st ! w)\<lparr>won := True, prizeId := Some pid\<rparr>],
       winners = winners st @ [(members st ! w)\<lparr>won := True, prizeId := Some pid\<rparr>],
       used = Suc (used st)\<rparr>"
    by (simp add: drawWinner_def Let_def el_def i_def w_def)
  have lenE: "Suc (length (eligibleParticipants (drawWinner r pid st)))
                = length (eligibleParticipants st)"
    using i by (simp add: st' el_def)
  have lenW: "length (winners (drawWinner r pid st)) = Suc (length (winners st))"
    by (simp add: st')
  have mem: "members (drawWinner r pid st)
               = (members st)[w := (members st ! w)\<lparr>won := True, prizeId := Some pid\<rparr>]"
    by (simp add: st')
  have inv': "drawInv (drawWinner r pid st)"
    unfolding st' drawInv_def using d' s el by (auto simp: nth_list_update)
  have cnt: "length (filter won ((members st)[w := (members st ! w)\<lparr>won := True, prizeId := Some pid\<rparr>]))
              = Suc (length (filter won (members st)))"
    by (rule won_count_update [OF w nw])
  show ?thesis
    unfolding drawStep_def
  proof (intro conjI)
    show "drawInv (drawWinner r pid st)" by (rule inv')
    show "set (eligibleParticipants (drawWinner r pid st)) \<subseteq> set (eligibleParticipants st)"
      using s by (auto simp: st' el_def)
    show "length (winners (drawWinner r pid st)) + length (eligibleParticipants (drawWinner r pid st))
            = length (winners st) + length (eligibleParticipants st)"
      using lenE lenW by arith
    show "length (filter won (members (drawWinner r pid st)))
            + length (eligibleParticipants (drawWinner r pid st))
            = length (filter won (members st)) + length (eligibleParticipants st)"
      using lenE cnt unfolding mem by arith
    show "length (members (drawWinner r pid st)) = length (members st)"
      by (simp add: st')
    show "\<forall>j. j \<notin> set (eligibleParticipants st)
             \<longrightarrow> members (drawWinner r pid st) ! j = members st ! j"
    proof (intro allI impI)
      fix j
      assume "j \<notin> set (eligibleParticipants st)"
      with wel have "w \<noteq> j" by (auto simp: el_def)
      then show "members (drawWinner r pid st) ! j = members st ! j"
        by (simp add: mem)
    qed
    show "\<exists>ws. winners (drawWinner r pid st) = winners st @ ws \<and> (\<forall>w \<in> set ws. won w)"
      by (simp add: st')
  qed
qed

lemma drawPrize_step:
  "drawInv st \<Longrightarrow> drawStep st (drawPrize rand pid n st)"
proof (induction n arbitrary: st)
  case 0
  then show ?case by (simp add: drawStep_refl)
next
  case (Suc n)
  show ?case
  proof (cases "eligibleParticipants st = []")
    case True
    then show ?thesis using Suc.prems by (simp add: drawStep_refl)
  next
    case False
    have a: "drawStep st (drawWinner (rand (used st)) pid st)"
      by (rule drawWinner_step [OF Suc.prems False])
    then have "drawInv (drawWinner (rand (used st)) pid st)"
      by (simp add: drawStep_def)
    then have "drawStep (drawWinner (rand (used st)) pid st)
                 (drawPrize rand pid n (drawWinner (rand (used st)) pid st))"
      by (rule Suc.IH)
    with a show ?thesis using False by (simp add: drawStep_trans)
  qed
qed

lemma drawPrize_bound:
  "length (winners (drawPrize rand pid n st)) \<le> length (winners st) + n"
proof (induction n arbitrary: st)
  case 0
  show ?case by simp
next
  case (Suc n)
  have "length (winners (drawWinner (rand (used st)) pid st)) = Suc (length (winners st))"
    by (simp add: drawWinner_def Let_def)
  with Suc.IH [of "drawWinner (rand (used st)) pid st"] show ?case by simp
qed

lemma drawAll_step: "drawInv st \<Longrightarrow> drawStep st (drawAll rand ps st)"
proof (induction ps arbitrary: st)
  case Nil
  then show ?case by (simp add: drawAll_def drawStep_refl)
next
  case (Cons p ps)
  have a: "drawStep st (drawPrize rand (pz_id p) (nat \<lceil>quantity p\<rceil>) st)"
    by (rule drawPrize_step [OF Cons.prems])
  then have "drawInv (drawPrize rand (pz_id p) (nat \<lceil>quantity p\<rceil>) st)"
    by (simp add: drawStep_def)
  then have "drawStep (drawPrize rand (pz_id p) (nat \<lceil>quantity p\<rceil>) st)
               (drawAll rand ps (drawPrize rand (pz_id p) (nat \<lceil>quantity p\<rceil>) st))"
    by (rule Cons.IH)
  with a show ?case by (simp add: drawAll_def drawStep_trans)
qed

lemma drawAll_bound:
  "length (winners (drawAll rand ps st))
     \<le> length (winners st) + (\<Sum>p\<leftarrow>ps. nat \<lceil>quantity p\<rceil>)"
proof (induction ps arbitrary: st)
  case Nil
  show ?case by (simp add: drawAll_def)
next
  case (Cons p ps)
  have "length (winners (drawAll rand ps (drawPrize rand (pz_id p) (nat \<lceil>quantity p\<rceil>) st)))
          \<le> length (winners (drawPrize rand (pz_id p) (nat \<lceil>quantity p\<rceil>) st))
              + (\<Sum>p\<leftarrow>ps. nat \<lceil>quantity p\<rceil>)"
    by (rule Cons.IH)
  also have "\<dots> \<le> length (winners st) + nat \<lceil>quantity p\<rceil> + (\<Sum>p\<leftarrow>ps. nat \<lceil>quantity p\<rceil>)"
    using drawPrize_bound [of rand "pz_id p" "nat \<lceil>quantity p\<rceil>" st] by simp
  finally show ?case by (simp add: drawAll_def)
qed


lemma length_filter_positions:
  "length (filter (\<lambda>i. P (xs ! i)) [0..<length xs]) = length (filter P xs)"
proof -
  have "filter P xs = filter P (map (\<lambda>i. xs ! i) [0..<length xs])"
    by (simp add: map_nth)
  also have "\<dots> = map (\<lambda>i. xs ! i) (filter (\<lambda>i. P (xs ! i)) [0..<length xs])"
    by (simp add: filter_map comp_def)
  finally show ?thesis by simp
qed

lemma sum_counted_quantities:
  "list_all (\<lambda>p. 0 \<le> quantity p \<and> whole (quantity p)) ps \<Longrightarrow>
   real (\<Sum>p\<leftarrow>ps. nat \<lceil>quantity p\<rceil>) = (\<Sum>p\<leftarrow>ps. quantity p)"
proof (induction ps)
  case Nil
  show ?case by simp
next
  case (Cons p ps)
  from Cons.prems have a: "whole (quantity p)" "0 \<le> quantity p"
    and r: "list_all (\<lambda>p. 0 \<le> quantity p \<and> whole (quantity p)) ps"
    by simp_all
  have "real (nat \<lceil>quantity p\<rceil>) = quantity p"
    by (rule whole_count [OF a])
  moreover have "real (\<Sum>p\<leftarrow>ps. nat \<lceil>quantity p\<rceil>) = (\<Sum>p\<leftarrow>ps. quantity p)"
    by (rule Cons.IH [OF r])
  ultimately show ?case by (simp del: of_nat_nat)
qed

lemma initialDraw_inv: "drawInv (initialDraw ps)"
  by (simp add: drawInv_def initialDraw_def)

lemma initialDraw_eligible:
  "length (eligibleParticipants (initialDraw ps)) = length (filter (\<lambda>p. \<not> won p) ps)"
  unfolding initialDraw_def
  using length_filter_positions [of "\<lambda>p. \<not> won p" ps] by simp

lemma drawAll_initial:
  assumes st_def: "st = drawAll rand prs (initialDraw ps)"
  shows "length (winners st) \<le> (\<Sum>p\<leftarrow>prs. nat \<lceil>quantity p\<rceil>)"
    and "length (winners st) \<le> length (filter (\<lambda>p. \<not> won p) ps)"
    and "length (members st) = length ps"
    and "length (filter won (members st)) = length (filter won ps) + length (winners st)"
    and "\<forall>i < length ps. won (ps ! i) \<longrightarrow> members st ! i = ps ! i"
    and "\<forall>w \<in> set (winners st). won w"
proof -
  have step: "drawStep (initialDraw ps) st"
    unfolding st_def by (rule drawAll_step [OF initialDraw_inv])
  have w0: "winners (initialDraw ps) = []" and m0: "members (initialDraw ps) = ps"
    by (simp_all add: initialDraw_def)
  show "length (winners st) \<le> (\<Sum>p\<leftarrow>prs. nat \<lceil>quantity p\<rceil>)"
    using drawAll_bound [of rand prs "initialDraw ps"] by (simp add: st_def w0)
  have e: "length (winners st) + length (eligibleParticipants st)
             = length (filter (\<lambda>p. \<not> won p) ps)"
    using step by (simp add: drawStep_def w0 initialDraw_eligible)
  then show "length (winners st) \<le> length (filter (\<lambda>p. \<not> won p) ps)" by arith
  show "length (members st) = length ps"
    using step by (simp add: drawStep_def m0)
  have "length (filter won (members st)) + length (eligibleParticipants st)
          = length (filter won ps) + length (filter (\<lambda>p. \<not> won p) ps)"
    using step by (simp add: drawStep_def m0 initialDraw_eligible)
  with e show "length (filter won (members st)) = length (filter won ps) + length (winners st)"
    by arith
  have "\<forall>i. i \<notin> set (eligibleParticipants (initialDraw ps)) \<longrightarrow> members st ! i = ps ! i"
    using step by (simp add: drawStep_def m0)
  then show "\<forall>i < length ps. won (ps ! i) \<longrightarrow> members st ! i = ps ! i"
    by (simp add: initialDraw_def)
  show "\<forall>w \<in> set (winners st). won w"
    using step by (auto simp: drawStep_def w0)
qed

lemma runLaterLottery_later:
  assumes "map_of (campaigns s) cid = Some c" and "c_type c = later_lottery"
  shows "runLaterLottery cid rand s
           = (winners (drawAll rand (prizes c) (initialDraw (participants c))),
              s\<lparr>campaigns := AList.update cid
                   (c\<lparr>participants := members (drawAll rand (prizes c) (initialDraw (participants c)))\<rparr>)
                   (campaigns s)\<rparr>)"
  using assms by (simp add: runLaterLottery_def Let_def initialDraw_def)

text \<open>
  With prize quantities \<open>2\<close> and \<open>-1\<close> (sum \<open>1\<close>) and two participants the draw returns
  two winners; with one prize of quantity one half and one participant it returns one
  winner, the loop running for \<open>i = 0 < 0.5\<close>.
\<close>

theorem runLaterLottery_winners_counterexample:
  "c_type (the (map_of (campaigns (runOps mixedOps)) ''c1'')) = later_lottery
   \<and> (\<Sum>p\<leftarrow>prizes (the (map_of (campaigns (runOps mixedOps)) ''c1'')). quantity p) = 1
   \<and> length (fst (runLaterLottery ''c1'' (\<lambda>n. random_of 0) (runOps mixedOps))) = 2
   \<and> c_type (the (map_of (campaigns (runOps halfOps)) ''c1'')) = later_lottery
   \<and> (\<Sum>p\<leftarrow>prizes (the (map_of (campaigns (runOps halfOps)) ''c1'')). quantity p) = 1 / 2
   \<and> length (fst (runLaterLottery ''c1'' (\<lambda>n. random_of 0) (runOps halfOps))) = 1"
  by (simp add: mixedOps_run halfOps_run prizeCampaign_def samplePrize_def sampleCampaign_def
        draw_defs ceiling_def numeral_2_eq_2)


text \<open>
  C5 (as amended). For a stored campaign: on a variant other than \<open>later_lottery\<close>
  the call returns no winners and the service unchanged. On a \<open>later_lottery\<close>
  campaign it returns winners \<open>ws\<close> and stores the campaign with its participants
  redrawn, where the number of winners is at most the sum over the prizes of the
  number of draws made for the prize (the quantity rounded up, none for a negative
  quantity), which is the sum of the quantities when each quantity is whole and not
  negative, and at most the number of participants who had not won; every winner is
  marked won; the number of participants marked won grows by exactly the number of
  winners, so no participant is drawn twice; and a participant who had won before the
  call (in an earlier invocation, say) keeps the record unchanged.
\<close>

theorem runLaterLottery_winners:
  assumes "map_of (campaigns s) cid = Some c"
  shows "(c_type c \<noteq> later_lottery \<longrightarrow> runLaterLottery cid rand s = ([], s))
       \<and> (c_type c = later_lottery \<longrightarrow>
            (\<exists>ws drawn.
               runLaterLottery cid rand s
                 = (ws, s\<lparr>campaigns :=
                            AList.update cid (c\<lparr>participants := drawn\<rparr>) (campaigns s)\<rparr>)
               \<and> length ws \<le> (\<Sum>p\<leftarrow>prizes c. nat \<lceil>quantity p\<rceil>)
               \<and> (list_all (\<lambda>p. 0 \<le> quantity p \<and> whole (quantity p)) (prizes c)
                    \<longrightarrow> real (length ws) \<le> (\<Sum>p\<leftarrow>prizes c. quantity p))
               \<and> length ws \<le> length (filter (\<lambda>p. \<not> won p) (participants c))
               \<and> (\<forall>w \<in> set ws. won w)
               \<and> length drawn = length (participants c)
               \<and> length (filter won drawn) = length (filter won (participants c)) + length ws
               \<and> (\<forall>i < length (participants c).
                     won (participants c ! i) \<longrightarrow> drawn ! i = participants c ! i)))"
proof (intro conjI impI)
  assume "c_type c \<noteq> later_lottery"
  then show "runLaterLottery cid rand s = ([], s)"
    using assms by (simp add: runLaterLottery_def)
next
  assume later: "c_type c = later_lottery"
  define st where "st = drawAll rand (prizes c) (initialDraw (participants c))"
  note facts = drawAll_initial [OF st_def]
  have bound: "length (winners st) \<le> (\<Sum>p\<leftarrow>prizes c. nat \<lceil>quantity p\<rceil>)"
    by (rule facts(1))
  have counted: "list_all (\<lambda>p. 0 \<le> quantity p \<and> whole (quantity p)) (prizes c)
                   \<longrightarrow> real (length (winners st)) \<le> (\<Sum>p\<leftarrow>prizes c. quantity p)"
  proof
    assume "list_all (\<lambda>p. 0 \<le> quantity p \<and> whole (quantity p)) (prizes c)"
    then have "real (\<Sum>p\<leftarrow>prizes c. nat \<lceil>quantity p\<rceil>) = (\<Sum>p\<leftarrow>prizes c. quantity p)"
      by (rule sum_counted_quantities)
    with bound show "real (length (winners st)) \<le> (\<Sum>p\<leftarrow>prizes c. quantity p)"
      by linarith
  qed
  have run: "runLaterLottery cid rand s
           = (winners st, s\<lparr>campaigns := AList.update cid (c\<lparr>participants := members st\<rparr>)
                                            (campaigns s)\<rparr>)"
    unfolding st_def by (rule runLaterLottery_later [OF assms later])
  show "\<exists>ws drawn.
               runLaterLottery cid rand s
                 = (ws, s\<lparr>campaigns :=
                            AList.update cid (c\<lparr>participants := drawn\<rparr>) (campaigns s)\<rparr>)
               \<and> length ws \<le> (\<Sum>p\<leftarrow>prizes c. nat \<lceil>quantity p\<rceil>)
               \<and> (list_all (\<lambda>p. 0 \<le> quantity p \<and> whole (quantity p)) (prizes c)
                    \<longrightarrow> real (length ws) \<le> (\<Sum>p\<leftarrow>prizes c. quantity p))
               \<and> length ws \<le> length (filter (\<lambda>p. \<not> won p) (participants c))
               \<and> (\<forall>w \<in> set ws. won w)
               \<and> length drawn = length (participants c)
               \<and> length (filter won drawn) = length (filter won (participants c)) + length ws
               \<and> (\<forall>i < length (participants c).
                     won (participants c ! i) \<longrightarrow> drawn ! i = participants c ! i)"
    apply (rule exI [of _ "winners st"])
    apply (rule exI [of _ "members st"])
    using run bound counted facts(2) facts(6) facts(3) facts(4) facts(5)
    apply (intro conjI)
    apply assumption+
    done
qed


theorem runLaterLottery_winners_witness:
  "map_of (campaigns \<lparr>campaigns = [(''c1'', twoEntrants)]\<rparr>) ''c1'' = Some twoEntrants
   \<and> c_type twoEntrants = later_lottery
   \<and> list_all (\<lambda>p. 0 \<le> quantity p \<and> whole (quantity p)) (prizes twoEntrants)
   \<and> (\<Sum>p\<leftarrow>prizes twoEntrants. quantity p) = 1
   \<and> length (filter (\<lambda>p. \<not> won p) (participants twoEntrants)) = 1
   \<and> won (participants twoEntrants ! 0)
   \<and> (\<exists>ws drawn.
         runLaterLottery ''c1'' (\<lambda>n. random_of 0) \<lparr>campaigns = [(''c1'', twoEntrants)]\<rparr>
           = (ws, \<lparr>campaigns = [(''c1'', twoEntrants\<lparr>participants := drawn\<rparr>)]\<rparr>)
         \<and> real (length ws) \<le> 1
         \<and> length ws \<le> 1
         \<and> length (filter won drawn) = 1 + length ws
         \<and> drawn ! 0 = participants twoEntrants ! 0)
   \<and> c_type (sampleCampaign instant_web None active) \<noteq> later_lottery
   \<and> runLaterLottery ''c1'' (\<lambda>n. random_of 0) (sampleService instant_web None)
       = ([], sampleService instant_web None)"
proof -
  have h1: "map_of (campaigns \<lparr>campaigns = [(''c1'', twoEntrants)]\<rparr>) ''c1'' = Some twoEntrants"
    by simp
  have h2: "c_type twoEntrants = later_lottery"
    by (simp add: twoEntrants_def sampleCampaign_def)
  have h3: "list_all (\<lambda>p. 0 \<le> quantity p \<and> whole (quantity p)) (prizes twoEntrants)"
    by (simp add: twoEntrants_def sampleCampaign_def samplePrize_def)
  have h4: "(\<Sum>p\<leftarrow>prizes twoEntrants. quantity p) = 1"
    by (simp add: twoEntrants_def sampleCampaign_def samplePrize_def)
  have h5: "length (filter (\<lambda>p. \<not> won p) (participants twoEntrants)) = 1"
    by (simp add: twoEntrants_def sampleEntrant_def)
  have h6: "won (participants twoEntrants ! 0)"
    by (simp add: twoEntrants_def sampleEntrant_def)
  have h7: "length (filter won (participants twoEntrants)) = 1"
    by (simp add: twoEntrants_def sampleEntrant_def)
  have h8: "0 < length (participants twoEntrants)"
    by (simp add: twoEntrants_def)
  have g1: "map_of (campaigns (sampleService instant_web None)) ''c1''
              = Some (sampleCampaign instant_web None active)"
    by (simp add: sampleService_eq)
  have g2: "c_type (sampleCampaign instant_web None active) \<noteq> later_lottery"
    by (simp add: sampleCampaign_def)
  from runLaterLottery_winners [OF h1, of "\<lambda>n. random_of 0"] h2
  obtain ws drawn where
    w: "runLaterLottery ''c1'' (\<lambda>n. random_of 0) \<lparr>campaigns = [(''c1'', twoEntrants)]\<rparr>
          = (ws, \<lparr>campaigns = [(''c1'', twoEntrants)]\<rparr>
                   \<lparr>campaigns := AList.update ''c1'' (twoEntrants\<lparr>participants := drawn\<rparr>)
                      (campaigns \<lparr>campaigns = [(''c1'', twoEntrants)]\<rparr>)\<rparr>)"
    and w1: "list_all (\<lambda>p. 0 \<le> quantity p \<and> whole (quantity p)) (prizes twoEntrants)
               \<longrightarrow> real (length ws) \<le> (\<Sum>p\<leftarrow>prizes twoEntrants. quantity p)"
    and w2: "length ws \<le> length (filter (\<lambda>p. \<not> won p) (participants twoEntrants))"
    and w3: "length (filter won drawn) = length (filter won (participants twoEntrants)) + length ws"
    and w4: "\<forall>i < length (participants twoEntrants).
               won (participants twoEntrants ! i) \<longrightarrow> drawn ! i = participants twoEntrants ! i"
    by blast
  have e1: "runLaterLottery ''c1'' (\<lambda>n. random_of 0) \<lparr>campaigns = [(''c1'', twoEntrants)]\<rparr>
           = (ws, \<lparr>campaigns = [(''c1'', twoEntrants\<lparr>participants := drawn\<rparr>)]\<rparr>)"
    using w by simp
  have e2: "real (length ws) \<le> 1" using w1 h3 h4 by simp
  have e3: "length ws \<le> 1" using w2 h5 by simp
  have e4: "length (filter won drawn) = 1 + length ws" using w3 h7 by simp
  have e5: "drawn ! 0 = participants twoEntrants ! 0" using w4 h6 h8 by blast
  have f: "runLaterLottery ''c1'' (\<lambda>n. random_of 0) (sampleService instant_web None)
       = ([], sampleService instant_web None)"
    using runLaterLottery_winners [OF g1, of "\<lambda>n. random_of 0"] g2 by blast
  from h1 h2 h3 h4 h5 h6 e1 e2 e3 e4 e5 g2 f show ?thesis by blast
qed


section \<open>Prize inventory\<close>



lemma runInstantLottery_type: "c_type (snd (runInstantLottery c p r1 r2)) = c_type c"
  by (simp add: runInstantLottery_def Let_def)













section \<open>Scheduling a post\<close>

lemma sampleScheduler_eq:
  "sampleScheduler =
     \<lparr>scheduledPosts = [], timers = [], isRunning = True,
      timeouts = [\<lparr>handle = 0, fireAt = 60000, callback = CheckScheduledPosts\<rparr>],
      nextHandle = Suc 0, publishing = []\<rparr>"
  by (simp add: sampleScheduler_def start_def newSchedulerService_def checkScheduledPosts_def
        getScheduledPosts_def setTimeout_def Let_def)

lemma schedulePost_not_future:
  assumes "target \<le> now"
  shows "schedulePost txt target media gid now later s
           = (newPost gid txt target media now,
              s\<lparr>scheduledPosts := AList.update gid (newPost gid txt target media now) (scheduledPosts s)\<rparr>)"
  using assms by (simp add: schedulePost_def newPost_def Let_def)

lemma executePost_stored:
  "map_of (scheduledPosts s) pid = Some post \<Longrightarrow>
   executePost pid s = s\<lparr>publishing := publishing s @ [(pid, post)]\<rparr>"
  by (simp add: executePost_def)

lemma executePost_frame:
  "scheduledPosts (executePost pid s) = scheduledPosts s"
  "timers (executePost pid s) = timers s"
  "set (publishing s) \<subseteq> set (publishing (executePost pid s))"
  by (auto simp: executePost_def split: option.splits)

lemma setupTimer_frame:
  "scheduledPosts (setupTimer p later s) = scheduledPosts s"
  "set (publishing s) \<subseteq> set (publishing (setupTimer p later s))"
  "sp_id p \<noteq> k \<Longrightarrow> map_of (timers (setupTimer p later s)) k = map_of (timers s) k"
  by (auto simp: setupTimer_def Let_def setTimeout_def executePost_def update_conv'
           split: option.splits)

lemma checkPost_frame:
  "scheduledPosts (checkPost now later s p) = scheduledPosts s"
  "set (publishing s) \<subseteq> set (publishing (checkPost now later s p))"
  "sp_id p \<noteq> k \<Longrightarrow> map_of (timers (checkPost now later s p)) k = map_of (timers s) k"
  by (simp_all add: checkPost_def executePost_frame setupTimer_frame)

lemma foldl_checkPost_frame:
  "scheduledPosts (foldl (checkPost now later) s ps) = scheduledPosts s"
  "set (publishing s) \<subseteq> set (publishing (foldl (checkPost now later) s ps))"
proof (induction ps arbitrary: s)
  case Nil
  { case 1 show ?case by simp }
  { case 2 show ?case by simp }
next
  case (Cons p ps)
  { case 1 show ?case by (simp add: Cons.IH(1) checkPost_frame(1)) }
  { case 2 show ?case
      using Cons.IH(2) [where s = "checkPost now later s p"]
        checkPost_frame(2) [where s = s and now = now and later = later and p = p]
      by auto }
qed

lemma checkPost_due:
  assumes "map_of (scheduledPosts s) (sp_id post) = Some post"
    and "map_of (timers s) (sp_id post) = None" and "scheduledAt post \<le> now"
  shows "checkPost now later s post = s\<lparr>publishing := publishing s @ [(sp_id post, post)]\<rparr>"
  using assms by (simp add: checkPost_def executePost_def)

lemma sweep_reaches_post:
  assumes "map_of (scheduledPosts s) (sp_id post) = Some post"
    and "map_of (timers s) (sp_id post) = None"
    and "scheduledAt post \<le> now"
    and "post \<in> set ps"
    and "\<forall>p \<in> set ps. p \<noteq> post \<longrightarrow> sp_id p \<noteq> sp_id post"
  shows "(sp_id post, post) \<in> set (publishing (foldl (checkPost now later) s ps))"
  using assms
proof (induction ps arbitrary: s)
  case Nil
  then show ?case by simp
next
  case (Cons p ps)
  show ?case
  proof (cases "p = post")
    case True
    have "(sp_id post, post) \<in> set (publishing (checkPost now later s post))"
      using checkPost_due [OF Cons.prems(1) Cons.prems(2) Cons.prems(3)] by simp
    then show ?thesis
      using foldl_checkPost_frame(2)
              [where s = "checkPost now later s post" and now = now and later = later and ps = ps]
            True
      by auto
  next
    case False
    then have ne: "sp_id p \<noteq> sp_id post" using Cons.prems(5) by simp
    have "(sp_id post, post) \<in> set (publishing (foldl (checkPost now later) (checkPost now later s p) ps))"
    proof (rule Cons.IH)
      show "map_of (scheduledPosts (checkPost now later s p)) (sp_id post) = Some post"
        using Cons.prems(1) by (simp add: checkPost_frame(1))
      show "map_of (timers (checkPost now later s p)) (sp_id post) = None"
        using Cons.prems(2) ne by (simp add: checkPost_frame(3))
      show "scheduledAt post \<le> now" by (rule Cons.prems(3))
      show "post \<in> set ps" using Cons.prems(4) False by auto
      show "\<forall>p \<in> set ps. p \<noteq> post \<longrightarrow> sp_id p \<noteq> sp_id post"
        using Cons.prems(5) by simp
    qed
    then show ?thesis by simp
  qed
qed

lemma set_update_entries:
  "set (AList.update k v al) \<subseteq> insert (k, v) (set al)"
  by (induction al) auto

lemma update_entry: "(k, v) \<in> set (AList.update k v al)"
  by (induction al) auto

lemma scheduledPast_eq:
  "scheduledPast = sampleScheduler\<lparr>scheduledPosts := [(''p1'', samplePost)]\<rparr>"
  by (simp add: scheduledPast_def schedulePost_def Let_def sampleScheduler_eq samplePost_def
        newPost_def)

text \<open>
  On a running scheduler, at time 1000, a post is scheduled for time 500. The call
  returns with the post stored as \<open>pending\<close>, no execution started, no timer recorded
  for the post, and the only armed timeout the one of the next sweep.
\<close>

theorem schedulePost_past_due_counterexample:
  "isRunning sampleScheduler \<and> (500::int) \<le> 1000
   \<and> schedulePost ''hello'' 500 None ''p1'' 1000 1000 sampleScheduler
       = (samplePost, scheduledPast)
   \<and> map_of (scheduledPosts scheduledPast) ''p1'' = Some samplePost
   \<and> sp_status samplePost = pending
   \<and> publishing scheduledPast = []
   \<and> timers scheduledPast = []
   \<and> map callback (timeouts scheduledPast) = [CheckScheduledPosts]"
  by (simp add: scheduledPast_def schedulePost_def Let_def sampleScheduler_eq samplePost_def
        newPost_def)

text \<open>
  C3 (as amended). For a running scheduler and a target time at or before the clock
  reading, \<open>schedulePost\<close> only stores the post, with status \<open>pending\<close>: it arms no
  timer and starts no execution (timers, timeouts and running executions are those of
  before). The execution is started by the next reconciliation sweep: when the
  generated id is fresh (no timer under it, no stored post carrying it), the sweep
  calls \<open>executePost\<close> for the post, and the end of that execution stores the post as
  \<open>posted\<close> or \<open>failed\<close>.
\<close>

theorem schedulePost_past_due_waits:
  assumes "isRunning s" and "target \<le> now"
  shows "schedulePost txt target media gid now later s
           = (newPost gid txt target media now,
              s\<lparr>scheduledPosts :=
                  AList.update gid (newPost gid txt target media now) (scheduledPosts s)\<rparr>)
       \<and> sp_status (newPost gid txt target media now) = pending
       \<and> (map_of (timers s) gid = None
            \<and> (\<forall>p \<in> snd ` set (scheduledPosts s). sp_id p \<noteq> gid) \<and> target \<le> sweep
          \<longrightarrow> (gid, newPost gid txt target media now)
                \<in> set (publishing (checkScheduledPosts sweep later'
                        (snd (schedulePost txt target media gid now later s)))))
       \<and> (\<forall>resolved s'. map_of (scheduledPosts
                (finishPost resolved gid (newPost gid txt target media now) s')) gid
              = Some ((newPost gid txt target media now)
                        \<lparr>sp_status := (if resolved then posted else failed)\<rparr>))"
proof -
  define post where "post = newPost gid txt target media now"
  define s1 where "s1 = s\<lparr>scheduledPosts := AList.update gid post (scheduledPosts s)\<rparr>"
  have id: "sp_id post = gid" and at: "scheduledAt post = target" and st: "sp_status post = pending"
    by (simp_all add: post_def newPost_def)
  have sched: "schedulePost txt target media gid now later s = (post, s1)"
    unfolding post_def s1_def by (rule schedulePost_not_future [OF assms(2)])
  have sweep: "(gid, post) \<in> set (publishing (checkScheduledPosts sweep later' s1))"
    if fresh: "map_of (timers s) gid = None"
      and others: "\<forall>p \<in> snd ` set (scheduledPosts s). sp_id p \<noteq> gid"
      and due: "target \<le> sweep"
  proof -
    have run: "isRunning s1" using assms(1) by (simp add: s1_def)
    have stored: "map_of (scheduledPosts s1) (sp_id post) = Some post"
      by (simp add: s1_def id update_conv')
    have notimer: "map_of (timers s1) (sp_id post) = None"
      using fresh by (simp add: s1_def id)
    have "(gid, post) \<in> set (scheduledPosts s1)"
      by (simp add: s1_def update_entry)
    then have "snd (gid, post) \<in> snd ` set (scheduledPosts s1)"
      by (rule imageI)
    then have mem: "post \<in> set (getScheduledPosts pending s1)"
      using st by (simp add: getScheduledPosts_def)
    have uniq: "\<forall>p \<in> set (getScheduledPosts pending s1). p \<noteq> post \<longrightarrow> sp_id p \<noteq> sp_id post"
    proof (intro ballI impI)
      fix p
      assume "p \<in> set (getScheduledPosts pending s1)" and np: "p \<noteq> post"
      then have "p \<in> snd ` set (AList.update gid post (scheduledPosts s))"
        by (simp add: getScheduledPosts_def s1_def)
      then obtain k where "(k, p) \<in> set (AList.update gid post (scheduledPosts s))"
        by force
      then have "(k, p) \<in> insert (gid, post) (set (scheduledPosts s))"
        using set_update_entries [of gid post "scheduledPosts s"] by blast
      with np have "(k, p) \<in> set (scheduledPosts s)" by simp
      then have "p \<in> snd ` set (scheduledPosts s)" by force
      with others have "sp_id p \<noteq> gid" by blast
      then show "sp_id p \<noteq> sp_id post" using id by simp
    qed
    have "(sp_id post, post)
            \<in> set (publishing (foldl (checkPost sweep later') s1 (getScheduledPosts pending s1)))"
      using stored notimer _ mem uniq by (rule sweep_reaches_post) (simp add: at due)
    then show ?thesis
      using run by (simp add: checkScheduledPosts_def Let_def setTimeout_def id)
  qed
  have fin: "\<forall>resolved s'. map_of (scheduledPosts (finishPost resolved gid post s')) gid
              = Some (post\<lparr>sp_status := (if resolved then posted else failed)\<rparr>)"
    by (simp add: finishPost_def update_conv')
  have s1: "snd (schedulePost txt target media gid now later s) = s1"
    by (simp add: sched)
  have sched': "schedulePost txt target media gid now later s
           = (post, s\<lparr>scheduledPosts := AList.update gid post (scheduledPosts s)\<rparr>)"
    using sched by (simp only: s1_def)
  show ?thesis
    unfolding post_def [symmetric] s1
  proof (intro conjI impI)
    show "schedulePost txt target media gid now later s
           = (post, s\<lparr>scheduledPosts := AList.update gid post (scheduledPosts s)\<rparr>)"
      by (rule sched')
    show "sp_status post = pending" by (rule st)
    show "\<forall>resolved s'. map_of (scheduledPosts (finishPost resolved gid post s')) gid
              = Some (post\<lparr>sp_status := (if resolved then posted else failed)\<rparr>)"
      by (rule fin)
    assume "map_of (timers s) gid = None
            \<and> (\<forall>p \<in> snd ` set (scheduledPosts s). sp_id p \<noteq> gid) \<and> target \<le> sweep"
    then show "(gid, post) \<in> set (publishing (checkScheduledPosts sweep later' s1))"
      using sweep by blast
  qed
qed


theorem schedulePost_past_due_waits_witness:
  "isRunning sampleScheduler \<and> (500::int) \<le> 1000
   \<and> map_of (timers sampleScheduler) ''p1'' = None
   \<and> scheduledPosts sampleScheduler = []
   \<and> (500::int) \<le> 60000
   \<and> schedulePost ''hello'' 500 None ''p1'' 1000 1000 sampleScheduler
       = (samplePost, sampleScheduler\<lparr>scheduledPosts := [(''p1'', samplePost)]\<rparr>)
   \<and> sp_status samplePost = pending
   \<and> (''p1'', samplePost) \<in> set (publishing (checkScheduledPosts 60000 60000 scheduledPast))
   \<and> map_of (scheduledPosts (finishPost True ''p1'' samplePost
                (checkScheduledPosts 60000 60000 scheduledPast))) ''p1''
       = Some (samplePost\<lparr>sp_status := posted\<rparr>)"
proof -
  have h1: "isRunning sampleScheduler" by (simp add: sampleScheduler_eq)
  have h2: "(500::int) \<le> 1000" by simp
  have h3: "map_of (timers sampleScheduler) ''p1'' = None" by (simp add: sampleScheduler_eq)
  have h4: "\<forall>p \<in> snd ` set (scheduledPosts sampleScheduler). sp_id p \<noteq> ''p1''"
    by (simp add: sampleScheduler_eq)
  have h5: "(500::int) \<le> 60000" by simp
  have upd: "AList.update ''p1'' samplePost (scheduledPosts sampleScheduler) = [(''p1'', samplePost)]"
    by (simp add: sampleScheduler_eq)
  note t = schedulePost_past_due_waits
             [OF h1 h2, of "''hello''" None "''p1''" 1000 60000 60000, folded samplePost_def scheduledPast_def]
  have h6: "scheduledPosts sampleScheduler = []" by (simp add: sampleScheduler_eq)
  from t h1 h2 h3 h4 h5 h6 upd show ?thesis by simp
qed

section \<open>Instant lottery and the award count\<close>

text \<open>
  With a win probability of \<open>100\<close> and a prize available an instant draw wins. The
  probability used is the default \<open>10\<close> both when none is set and when \<open>0\<close> is set.
\<close>

lemma runInstantLottery_certain_win:
  assumes "winProbability (rules c) = Some 100" and "\<exists>q \<in> set (prizes c). 0 < remaining q"
  shows "res_won (fst (runInstantLottery c p r1 r2))"
proof -
  from assms(2) obtain i where "i < length (prizes c)" and "0 < remaining (prizes c ! i)"
    by (auto simp: in_set_conv_nth)
  then have "filter (\<lambda>i. remaining (prizes c ! i) > 0) [0..<length (prizes c)] \<noteq> []"
    by (auto simp: filter_empty_conv)
  moreover have "the_value r1 * 100 < 100"
    using the_value_range [of r1] by simp
  ultimately show ?thesis
    using assms(1) by (simp add: runInstantLottery_def Let_def number_or_def)
qed

lemma number_or_default:
  "number_or None 10 = 10" "number_or (Some 0) 10 = 10" "w \<noteq> 0 \<Longrightarrow> number_or (Some w) 10 = w"
  by (simp_all add: number_or_def)


text \<open>
  At entry: with a win probability of \<open>100\<close>, a prize available and no prize id the
  empty string, the entrant of an instant campaign is recorded as a winner. A prize
  whose id is the empty string is taken from the inventory without the entrant being
  recorded as a winner, since \<open>result.won && result.prizeId\<close> is then false.
\<close>

lemma enterCampaign_certain_win:
  assumes "map_of (campaigns s) cid = Some c" and "c_status c = active"
    and "\<not> list_ex (\<lambda>p. userId p = xu_id user) (participants c)"
    and "c_type c = instant_web \<or> c_type c = instant_auto"
    and "winProbability (rules c) = Some 100"
    and "\<exists>q \<in> set (prizes c). 0 < remaining q"
    and "\<forall>q \<in> set (prizes c). pz_id q \<noteq> []"
  shows "\<exists>entered p.
           enterCampaign cid user now r1 r2 s
             = (True, s\<lparr>campaigns := AList.update cid entered (campaigns s)\<rparr>)
           \<and> participants entered = participants c @ [p]
           \<and> userId p = xu_id user \<and> won p"
proof -
  define p0 where "p0 = \<lparr>userId = xu_id user, username = xu_username user,
                          enteredAt = now, won = False, prizeId = None\<rparr>"
  have win: "res_won (fst (runInstantLottery c p0 r1 r2))"
    by (rule runInstantLottery_certain_win [OF assms(5) assms(6)])
  from runInstantLottery_cases [of c p0 r1 r2] win
  obtain k where k: "k < length (prizes c)"
    and r: "runInstantLottery c p0 r1 r2
             = (\<lparr>res_won = True, res_prizeId = Some (pz_id (prizes c ! k))\<rparr>,
                c\<lparr>prizes := (prizes c)[k := (prizes c ! k)
                                   \<lparr>remaining := remaining (prizes c ! k) - 1\<rparr>]\<rparr>)"
    by auto
  have "pz_id (prizes c ! k) \<noteq> []"
    using assms(7) k by simp
  then have e: "enterCampaign cid user now r1 r2 s
      = (True, s\<lparr>campaigns := AList.update cid
           (c\<lparr>prizes := (prizes c)[k := (prizes c ! k)
                                   \<lparr>remaining := remaining (prizes c ! k) - 1\<rparr>],
              participants := participants c
                @ [p0\<lparr>won := True, prizeId := Some (pz_id (prizes c ! k))\<rparr>]\<rparr>)
           (campaigns s)\<rparr>)"
    using assms(1-4) r
    by (simp add: enterCampaign_def Let_def p0_def [symmetric] truthy_def)
  show ?thesis
    apply (rule exI [of _ "c\<lparr>prizes := (prizes c)[k := (prizes c ! k)
                                   \<lparr>remaining := remaining (prizes c ! k) - 1\<rparr>],
              participants := participants c
                @ [p0\<lparr>won := True, prizeId := Some (pz_id (prizes c ! k))\<rparr>]\<rparr>"])
    apply (rule exI [of _ "p0\<lparr>won := True, prizeId := Some (pz_id (prizes c ! k))\<rparr>"])
    apply (simp add: e)
    apply (simp add: p0_def)
    done
qed


lemma empty_prize_id_entry:
  "enterCampaign ''c1'' (sampleUser ''u1'') 5 (random_of 0) (random_of 0)
      \<lparr>campaigns = [(''c1'', (sampleCampaign instant_auto (Some 100) active)
                        \<lparr>prizes := [samplePrize [] 1]\<rparr>)]\<rparr>
     = (True, \<lparr>campaigns = [(''c1'', (sampleCampaign instant_auto (Some 100) active)
                        \<lparr>prizes := [(samplePrize [] 1)\<lparr>remaining := 0\<rparr>],
                         participants := [sampleEntrant ''u1'' 5 False None]\<rparr>)]\<rparr>)"
  by (simp add: draw_defs sampleCampaign_def sampleUser_def samplePrize_def sampleRules_def)

text \<open>
  C1. The campaign \<open>c1\<close> is an active \<open>instant_auto\<close> campaign whose rules set
  \<open>winProbability\<close> to \<open>0\<close>, with one prize left. An entry whose first random draw is
  \<open>0.05\<close> (so \<open>random = 5\<close>) wins: the participant is stored with \<open>won = true\<close> and the
  prize's id, and the prize's \<open>remaining\<close> drops to \<open>0\<close>. The probability \<open>0\<close> is
  replaced by the default \<open>10\<close>.
\<close>

theorem zero_probability_still_wins:
  "winProbability (rules (sampleCampaign instant_auto (Some 0) active)) = Some 0
   \<and> enterCampaign ''c1'' (sampleUser ''u1'') 5 (random_of (1/20)) (random_of 0)
         (sampleService instant_auto (Some 0))
       = (True, \<lparr>campaigns = [(''c1'', (sampleCampaign instant_auto (Some 0) active)
            \<lparr>prizes := [(samplePrize ''prize1'' 1)\<lparr>remaining := 0\<rparr>],
             participants := [sampleEntrant ''u1'' 5 True (Some ''prize1'')]\<rparr>)]\<rparr>)"
  by (simp add: sampleService_eq draw_defs sampleCampaign_def sampleUser_def samplePrize_def
        sampleRules_def)

text \<open>
  C2. A \<open>later_lottery\<close> campaign \<open>c1\<close> is created with one prize of quantity 1 and
  started, one user enters, and \<open>runLaterLottery\<close> is called. The draw awards the prize
  to the participant, who then holds the prize's id, while the prize's \<open>remaining\<close>
  is still \<open>1\<close>: \<open>quantity - remaining\<close> is \<open>0\<close> and one participant holds the prize.
\<close>

theorem later_lottery_keeps_remaining:
  "runOps sampleDraw = \<lparr>campaigns = [(''c1'', sampleDrawn)]\<rparr>
   \<and> prizes sampleDrawn = [samplePrize ''prize1'' 1]
   \<and> quantity (samplePrize ''prize1'' 1) - remaining (samplePrize ''prize1'' 1) = 0
   \<and> awarded sampleDrawn (samplePrize ''prize1'' 1) = 1
   \<and> \<not> awardsCounted sampleDrawn"
  by (simp add: sampleDraw_def sampleDrawn_def sample_defs draw_defs awardsCounted_def
        awarded_def)


section \<open>Updating a scheduled post\<close>

lemma setupTimer_publishing:
  "now < scheduledAt p \<Longrightarrow> publishing (setupTimer p now s) = publishing s"
  by (simp add: setupTimer_def Let_def setTimeout_def)

lemma setupTimer_scheduledPosts:
  "scheduledPosts (setupTimer p now s) = scheduledPosts s"
  by (simp add: setupTimer_def Let_def setTimeout_def executePost_def split: option.splits)

lemma cancelTimer_frame:
  "scheduledPosts (cancelTimer pid s) = scheduledPosts s"
  "publishing (cancelTimer pid s) = publishing s"
  "isRunning (cancelTimer pid s) = isRunning s"
  by (simp_all add: cancelTimer_def clearTimeout_def split: option.splits)

lemma updateScheduledPost_pending:
  assumes "map_of (scheduledPosts s) pid = Some post" and "sp_status post = pending"
  shows "updateScheduledPost pid updates now later s =
           (Some (mergeUpdates post updates),
            (let s2 = (cancelTimer pid s)\<lparr>scheduledPosts :=
                        AList.update pid (mergeUpdates post updates) (scheduledPosts s)\<rparr>
             in if u_scheduledAt updates \<noteq> None \<and> isRunning s
                   \<and> scheduledAt (mergeUpdates post updates) > now
                then setupTimer (mergeUpdates post updates) later s2 else s2))"
  using assms
  by (auto simp: updateScheduledPost_def Let_def cancelTimer_frame)

lemma setupTimer_due:
  "scheduledAt p \<le> now \<Longrightarrow> setupTimer p now s = executePost (sp_id p) s"
  by (simp add: setupTimer_def Let_def)

lemma executePost_publishing:
  "publishing (executePost pid s)
     = publishing s @ (case map_of (scheduledPosts s) pid of None \<Rightarrow> [] | Some q \<Rightarrow> [(pid, q)])"
  by (simp add: executePost_def split: option.splits)

text \<open>
  The pending post \<open>p1\<close> of a running scheduler is updated with \<open>status: posted\<close> and
  \<open>scheduledAt: 2001\<close>, the function reading the clock at 2000 and \<open>setupTimer\<close> at
  2001. The call returns the post with status \<open>posted\<close> and has called \<open>executePost\<close>
  for it: a publish call is under way.
\<close>

theorem updateScheduledPost_counterexample:
  "map_of (scheduledPosts scheduledPast) ''p1'' = Some samplePost
   \<and> sp_status samplePost = pending
   \<and> u_status raceUpdates = Some posted
   \<and> fst (updateScheduledPost ''p1'' raceUpdates 2000 2001 scheduledPast)
       = Some (samplePost\<lparr>scheduledAt := 2001, sp_status := posted\<rparr>)
   \<and> publishing scheduledPast = []
   \<and> publishing (snd (updateScheduledPost ''p1'' raceUpdates 2000 2001 scheduledPast))
       = [(''p1'', samplePost\<lparr>scheduledAt := 2001, sp_status := posted\<rparr>)]"
  by (simp add: scheduledPast_eq sampleScheduler_eq samplePost_def newPost_def raceUpdates_def
        noUpdates_def updateScheduledPost_def mergeUpdates_def cancelTimer_def setupTimer_def
        executePost_def Let_def)

text \<open>
  C10 (as amended). For a stored post with status \<open>pending\<close>, \<open>updateScheduledPost\<close>
  returns and stores, under the key it was called with, the post in which every key
  present in \<open>updates\<close> has the value of \<open>updates\<close> and every absent key the value of the
  stored post: \<open>status\<close> and \<open>id\<close> as well as text, time, media and creation stamp. So
  a \<open>status\<close> in \<open>updates\<close> becomes the post's status by the merge, and an \<open>id\<close> in
  \<open>updates\<close> becomes the post's \<open>id\<close> field while the post stays under the old key. The
  call starts no publish call, except when the scheduler is running and \<open>updates\<close>
  also carries a target time after the function's own clock reading and not after
  \<open>setupTimer\<close>'s: then \<open>setupTimer\<close> calls \<open>executePost\<close> at once for the post's \<open>id\<close>
  field, which publishes the post stored under that id, if there is one.
\<close>

theorem updateScheduledPost_merges_all:
  assumes "map_of (scheduledPosts s) pid = Some post" and "sp_status post = pending"
  shows "\<exists>m s'. updateScheduledPost pid updates now later s = (Some m, s')
          \<and> map_of (scheduledPosts s') = (map_of (scheduledPosts s))(pid \<mapsto> m)
          \<and> sp_id m = (case u_id updates of None \<Rightarrow> sp_id post | Some v \<Rightarrow> v)
          \<and> post_text m = (case u_text updates of None \<Rightarrow> post_text post | Some v \<Rightarrow> v)
          \<and> scheduledAt m
              = (case u_scheduledAt updates of None \<Rightarrow> scheduledAt post | Some v \<Rightarrow> v)
          \<and> sp_status m = (case u_status updates of None \<Rightarrow> sp_status post | Some v \<Rightarrow> v)
          \<and> mediaUrls m = (case u_mediaUrls updates of None \<Rightarrow> mediaUrls post | Some v \<Rightarrow> v)
          \<and> sp_createdAt m
              = (case u_createdAt updates of None \<Rightarrow> sp_createdAt post | Some v \<Rightarrow> v)
          \<and> publishing s'
              = publishing s
                @ (if \<exists>t. u_scheduledAt updates = Some t \<and> isRunning s \<and> now < t \<and> t \<le> later
                   then (case map_of (scheduledPosts s') (sp_id m) of
                           None \<Rightarrow> [] | Some q \<Rightarrow> [(sp_id m, q)])
                   else [])"
proof -
  define m where "m = mergeUpdates post updates"
  define s2 where "s2 = (cancelTimer pid s)\<lparr>scheduledPosts := AList.update pid m (scheduledPosts s)\<rparr>"
  define s' where "s' = (if u_scheduledAt updates \<noteq> None \<and> isRunning s \<and> scheduledAt m > now
                         then setupTimer m later s2 else s2)"
  have run: "updateScheduledPost pid updates now later s = (Some m, s')"
    unfolding m_def s'_def s2_def
    using updateScheduledPost_pending [OF assms, of updates now later] by (simp add: Let_def)
  have posts: "scheduledPosts s' = AList.update pid m (scheduledPosts s)"
    by (simp add: s'_def s2_def setupTimer_scheduledPosts)
  have posts2: "scheduledPosts s2 = scheduledPosts s'"
    by (simp add: posts s2_def)
  have stored: "map_of (scheduledPosts s') = (map_of (scheduledPosts s))(pid \<mapsto> m)"
    by (simp add: posts update_conv')
  have pub2: "publishing s2 = publishing s"
    by (simp add: s2_def cancelTimer_frame)
  have at: "\<And>t. u_scheduledAt updates = Some t \<Longrightarrow> scheduledAt m = t"
    by (simp add: m_def mergeUpdates_def)
  have pub: "publishing s'
              = publishing s
                @ (if \<exists>t. u_scheduledAt updates = Some t \<and> isRunning s \<and> now < t \<and> t \<le> later
                   then (case map_of (scheduledPosts s') (sp_id m) of
                           None \<Rightarrow> [] | Some q \<Rightarrow> [(sp_id m, q)])
                   else [])"
  proof (cases "u_scheduledAt updates \<noteq> None \<and> isRunning s \<and> scheduledAt m > now")
    case False
    then have n: "\<not> (\<exists>t. u_scheduledAt updates = Some t \<and> isRunning s \<and> now < t \<and> t \<le> later)"
      using at by auto
    have "s' = s2" using False by (auto simp: s'_def)
    then have "publishing s' = publishing s" by (simp add: pub2)
    then show ?thesis by (simp only: n if_False append_Nil2)
  next
    case True
    then obtain t where t: "u_scheduledAt updates = Some t" by auto
    with True at have nt: "now < t" and mt: "scheduledAt m = t" by simp_all
    have s'': "s' = setupTimer m later s2" using True by (simp add: s'_def)
    show ?thesis
    proof (cases "t \<le> later")
      case True
      then have "setupTimer m later s2 = executePost (sp_id m) s2"
        using mt by (simp add: setupTimer_due)
      then have "publishing s' = publishing (executePost (sp_id m) s2)"
        by (simp only: s'')
      also have "\<dots> = publishing s2
                   @ (case map_of (scheduledPosts s2) (sp_id m) of
                        None \<Rightarrow> [] | Some q \<Rightarrow> [(sp_id m, q)])"
        by (rule executePost_publishing)
      finally have "publishing s' = publishing s
                   @ (case map_of (scheduledPosts s') (sp_id m) of
                        None \<Rightarrow> [] | Some q \<Rightarrow> [(sp_id m, q)])"
        by (simp only: posts2 pub2)
      moreover have "\<exists>t. u_scheduledAt updates = Some t \<and> isRunning s \<and> now < t \<and> t \<le> later"
        using t nt True \<open>u_scheduledAt updates \<noteq> None \<and> isRunning s \<and> scheduledAt m > now\<close>
        by auto
      ultimately show ?thesis by (simp only: if_True)
    next
      case False
      then have "later < scheduledAt m" using mt by simp
      then have "publishing (setupTimer m later s2) = publishing s2"
        by (rule setupTimer_publishing)
      then have "publishing s' = publishing s" by (simp add: s'' pub2)
      moreover have "\<not> (\<exists>t. u_scheduledAt updates = Some t \<and> isRunning s \<and> now < t \<and> t \<le> later)"
        using t False by auto
      ultimately show ?thesis by (simp only: if_False append_Nil2)
    qed
  qed
  have fields:
    "sp_id m = (case u_id updates of None \<Rightarrow> sp_id post | Some v \<Rightarrow> v)"
    "post_text m = (case u_text updates of None \<Rightarrow> post_text post | Some v \<Rightarrow> v)"
    "scheduledAt m = (case u_scheduledAt updates of None \<Rightarrow> scheduledAt post | Some v \<Rightarrow> v)"
    "sp_status m = (case u_status updates of None \<Rightarrow> sp_status post | Some v \<Rightarrow> v)"
    "mediaUrls m = (case u_mediaUrls updates of None \<Rightarrow> mediaUrls post | Some v \<Rightarrow> v)"
    "sp_createdAt m = (case u_createdAt updates of None \<Rightarrow> sp_createdAt post | Some v \<Rightarrow> v)"
    by (simp_all add: m_def mergeUpdates_def)
  show ?thesis
    apply (rule exI [of _ m])
    apply (rule exI [of _ s'])
    using run stored fields pub
    apply (intro conjI)
    apply assumption+
    done
qed


theorem updateScheduledPost_merges_all_witness:
  "map_of (scheduledPosts scheduledPast) ''p1'' = Some samplePost
   \<and> sp_status samplePost = pending
   \<and> u_status sampleUpdates = Some posted \<and> u_id sampleUpdates = Some ''other''
   \<and> u_text sampleUpdates = None \<and> u_scheduledAt sampleUpdates = None
   \<and> (\<exists>m s'. updateScheduledPost ''p1'' sampleUpdates 2000 2001 scheduledPast = (Some m, s')
          \<and> map_of (scheduledPosts s') ''p1'' = Some m
          \<and> map_of (scheduledPosts s') ''other'' = None
          \<and> sp_status m = posted
          \<and> sp_id m = ''other''
          \<and> post_text m = post_text samplePost
          \<and> scheduledAt m = scheduledAt samplePost
          \<and> publishing s' = publishing scheduledPast)"
proof -
  have h1: "map_of (scheduledPosts scheduledPast) ''p1'' = Some samplePost"
    by (simp add: scheduledPast_eq)
  have h2: "sp_status samplePost = pending"
    by (simp add: samplePost_def newPost_def)
  have h3: "u_status sampleUpdates = Some posted" "u_id sampleUpdates = Some ''other''"
    "u_text sampleUpdates = None" "u_scheduledAt sampleUpdates = None"
    by (simp_all add: sampleUpdates_def noUpdates_def)
  have h5: "map_of (scheduledPosts scheduledPast) ''other'' = None"
    by (simp add: scheduledPast_eq)
  from updateScheduledPost_merges_all [OF h1 h2, of sampleUpdates 2000 2001]
  obtain m s' where
    r: "updateScheduledPost ''p1'' sampleUpdates 2000 2001 scheduledPast = (Some m, s')"
    and st: "map_of (scheduledPosts s') = (map_of (scheduledPosts scheduledPast))(''p1'' \<mapsto> m)"
    and f1: "sp_id m = (case u_id sampleUpdates of None \<Rightarrow> sp_id samplePost | Some v \<Rightarrow> v)"
    and f2: "post_text m
               = (case u_text sampleUpdates of None \<Rightarrow> post_text samplePost | Some v \<Rightarrow> v)"
    and f3: "scheduledAt m
               = (case u_scheduledAt sampleUpdates of None \<Rightarrow> scheduledAt samplePost | Some v \<Rightarrow> v)"
    and f4: "sp_status m
               = (case u_status sampleUpdates of None \<Rightarrow> sp_status samplePost | Some v \<Rightarrow> v)"
    and p: "publishing s'
              = publishing scheduledPast
                @ (if \<exists>t. u_scheduledAt sampleUpdates = Some t \<and> isRunning scheduledPast
                           \<and> 2000 < t \<and> t \<le> 2001
                   then (case map_of (scheduledPosts s') (sp_id m) of
                           None \<Rightarrow> [] | Some q \<Rightarrow> [(sp_id m, q)])
                   else [])"
    by blast
  have "map_of (scheduledPosts s') ''p1'' = Some m"
    and "map_of (scheduledPosts s') ''other'' = None"
    using st h5 by simp_all
  moreover have "sp_status m = posted" "sp_id m = ''other''"
    "post_text m = post_text samplePost" "scheduledAt m = scheduledAt samplePost"
    using f1 f2 f3 f4 h3 by simp_all
  moreover have "publishing s' = publishing scheduledPast"
    using p h3 by simp
  ultimately show ?thesis using h1 h2 h3 r by blast
qed


end
